theory Spec2Isabelle
  imports Complex_Main
begin

section \<open>The tail-assignment QAOA class of tailassignment\_oop.py\<close>

text \<open>
  The class \<^verbatim>\<open>QAOATailAssignment\<close> holds a constraint matrix \<^verbatim>\<open>FR\<close> (F rows, R columns),
  a cost vector \<^verbatim>\<open>CR\<close> and a penalty weight \<^verbatim>\<open>mu\<close>. Its methods compute the cost and the
  feasibility of a measured bitstring, emit the gates of the problem Hamiltonian, and read
  success probability, expectation and best cost off an execution result.

  Numbers: the NumPy arrays hold float64 (or int64) values; the model computes with
  \<^typ>\<open>real\<close>, so every statement below is about the exact arithmetic value of the
  expressions of the source, not about their rounding. A two-dimensional array is a list
  of rows; that all rows have the same length is part of what an array is, and is
  written out in \<open>well_formed\<close> below.
\<close>

subsection \<open>Errors\<close>

datatype error =
    ValueError            \<comment> \<open>\<^verbatim>\<open>int(c)\<close> on a non-digit; shapes that do not match in \<^verbatim>\<open>@\<close> or \<^verbatim>\<open>*\<close>\<close>
  | IndexError            \<comment> \<open>an index outside an array, a list or the qubit register\<close>
  | ZeroDivisionError     \<comment> \<open>\<^verbatim>\<open>count/n_shots\<close> on Python integers with \<^verbatim>\<open>n_shots == 0\<close>\<close>
  | KeyError              \<comment> \<open>\<^verbatim>\<open>options['usebarrier']\<close> when the option is absent\<close>
  | NoStatevector         \<comment> \<open>\<^verbatim>\<open>get_statevector()\<close> on a result that has none\<close>
  | NotFinite             \<comment> \<open>a float64 result that is \<^verbatim>\<open>inf\<close> or \<^verbatim>\<open>nan\<close>, which \<^typ>\<open>real\<close> cannot hold\<close>
  | NameError             \<comment> \<open>reading a name that nothing defines\<close>

definition bind :: "error + 'a \<Rightarrow> ('a \<Rightarrow> error + 'b) \<Rightarrow> error + 'b" where
  "bind m f = (case m of Inl e \<Rightarrow> Inl e | Inr v \<Rightarrow> f v)"

fun map_err :: "('a \<Rightarrow> error + 'b) \<Rightarrow> 'a list \<Rightarrow> error + 'b list" where
  "map_err f [] = Inr []"
| "map_err f (x # xs) = bind (f x) (\<lambda>y. bind (map_err f xs) (\<lambda>ys. Inr (y # ys)))"

subsection \<open>The object\<close>

type_synonym matrix = "real list list"

record tail_assignment =
  FR :: matrix
  CR :: "real list"
  mu :: real
  F :: nat                       \<comment> \<open>\<^verbatim>\<open>self.F, self.R = np.shape(self.FR)\<close>\<close>
  R :: nat
  depth :: nat
  usebarrier :: "bool option"    \<comment> \<open>\<^verbatim>\<open>options['usebarrier']\<close>, \<open>None\<close> when the key is absent\<close>
  backend_name :: string         \<comment> \<open>\<^verbatim>\<open>self.backend.name()\<close>\<close>
  state_strings :: "string list" \<comment> \<open>set by the base class: the enumeration of all bitstrings\<close>

text \<open>
  What the constructor establishes: \<^verbatim>\<open>F, R = np.shape(FR)\<close> for the rectangular array
  \<^verbatim>\<open>FR\<close>, and one qubit per entry of \<^verbatim>\<open>CR\<close>; that \<^verbatim>\<open>CR\<close> has \<open>R\<close> entries is the
  invariant of the data model.
\<close>

definition well_formed :: "tail_assignment \<Rightarrow> bool" where
  "well_formed s =
     (F s = length (FR s) \<and> list_all (\<lambda>row. length row = R s) (FR s) \<and> length (CR s) = R s)"

subsection \<open>Array helpers\<close>

text \<open>\<^verbatim>\<open>int(c)\<close> for a one-character string: a decimal digit, or ValueError.\<close>

definition int_of_char :: "char \<Rightarrow> error + real" where
  "int_of_char c =
     (let n = (of_char c :: nat)
      in if 48 \<le> n \<and> n \<le> 57 then Inr (real (n - 48)) else Inl ValueError)"

text \<open>\<^verbatim>\<open>np.array(list(map(int, binstring[::-1])))\<close>\<close>

definition reversed_array :: "string \<Rightarrow> error + real list" where
  "reversed_array binstring = map_err int_of_char (rev binstring)"

text \<open>The sum of the elementwise products of two vectors of one length.\<close>

definition dot :: "real list \<Rightarrow> real list \<Rightarrow> real" where
  "dot xs ys = sum_list (map2 (*) xs ys)"

text \<open>\<^verbatim>\<open>v @ x\<close> on one-dimensional arrays: the lengths must agree.\<close>

definition vecdot :: "real list \<Rightarrow> real list \<Rightarrow> error + real" where
  "vecdot v x = (if length v = length x then Inr (dot v x) else Inl ValueError)"

text \<open>\<^verbatim>\<open>self.FR @ x\<close>: the number of columns must be the length of \<open>x\<close>.\<close>

definition matvec :: "tail_assignment \<Rightarrow> real list \<Rightarrow> error + real list" where
  "matvec s x = (if R s = length x then Inr (map (\<lambda>row. dot row x) (FR s)) else Inl ValueError)"

text \<open>
  \<^verbatim>\<open>self.FR * a\<close>: NumPy broadcasts the one-dimensional \<open>a\<close> along the rows. The shapes
  \<open>(F, R)\<close> and \<open>(n)\<close> fit when \<open>n = R\<close>, when \<open>n = 1\<close> (the one entry multiplies every
  element) or when \<open>R = 1\<close> (the one column multiplies every entry of \<open>a\<close>).
\<close>

definition broadcast_mul :: "tail_assignment \<Rightarrow> real list \<Rightarrow> error + matrix" where
  "broadcast_mul s a =
     (if length a = R s then Inr (map (\<lambda>row. map2 (*) row a) (FR s))
      else if length a = 1 then Inr (map (\<lambda>row. map (\<lambda>v. v * a ! 0) row) (FR s))
      else if R s = 1 then Inr (map (\<lambda>row. map (\<lambda>y. row ! 0 * y) a) (FR s))
      else Inl ValueError)"

subsection \<open>Cost model\<close>

text \<open>
  \<^verbatim>\<open>
  def cost(self,binstring):
      x = np.array(list(map(int,binstring[::-1])))
      return - ( (self.CR @ x) + self.mu * np.sum((1 - (self.FR @ x))**2) )
  \<close>
\<close>

definition cost :: "tail_assignment \<Rightarrow> string \<Rightarrow> error + real" where
  "cost s binstring =
     bind (reversed_array binstring) (\<lambda>x.
     bind (vecdot (CR s) x) (\<lambda>lin.
     bind (matvec s x) (\<lambda>v.
       Inr (- (lin + mu s * sum_list (map (\<lambda>y. (1 - y)\<^sup>2) v))))))"

text \<open>
  \<^verbatim>\<open>
  def is_solution(self,binstring):
      a = np.array(list(map(int,binstring[::-1])))
      return np.all(np.sum(self.FR * a,1)-1 == 0)
  \<close>
\<close>

definition is_solution :: "tail_assignment \<Rightarrow> string \<Rightarrow> error + bool" where
  "is_solution s binstring =
     bind (reversed_array binstring) (\<lambda>a.
     bind (broadcast_mul s a) (\<lambda>m.
       Inr (list_all (\<lambda>row. sum_list row - 1 = 0) m)))"

subsection \<open>The assignment vector of a bitstring\<close>

text \<open>
  Entry \<open>r\<close> of the assignment vector of a bitstring \<open>b\<close> of length \<open>n\<close> is the bit at
  position \<open>n - 1 - r\<close> of \<open>b\<close>: the string is read from its last character.
\<close>

definition bitstring :: "string \<Rightarrow> bool" where
  "bitstring b = list_all (\<lambda>c. c = CHR ''0'' \<or> c = CHR ''1'') b"

definition xbit :: "string \<Rightarrow> nat \<Rightarrow> real" where
  "xbit b r = (if b ! (length b - 1 - r) = CHR ''1'' then 1 else 0)"

text \<open>
  The two quantities of the cost model as the specification words them, over the
  assignment vector: the negated sum of the linear term and the weighted penalty, and
  the exact-cover test.
\<close>

definition spec_cost :: "tail_assignment \<Rightarrow> string \<Rightarrow> real" where
  "spec_cost s b =
     - ((\<Sum>r<R s. CR s ! r * xbit b r)
        + mu s * (\<Sum>f<F s. (1 - (\<Sum>r<R s. FR s ! f ! r * xbit b r))\<^sup>2))"

definition spec_is_solution :: "tail_assignment \<Rightarrow> string \<Rightarrow> bool" where
  "spec_is_solution s b = (\<forall>f<F s. (\<Sum>r<R s. FR s ! f ! r * xbit b r) = 1)"

subsection \<open>Gates and the qubit register\<close>

text \<open>
  The circuit \<^verbatim>\<open>self.qc\<close> is the list of the instructions appended to it, in order.
  \<open>Rx\<close> and \<open>Measure\<close> are the calls on the whole register; \<open>H\<close> stands for what
  the base class's \<^verbatim>\<open>initial_state\<close> may put in front.
\<close>

datatype gate =
    Rz real nat       \<comment> \<open>\<^verbatim>\<open>qc.rz(angle, q_register[r])\<close>\<close>
  | Cx nat nat        \<comment> \<open>\<^verbatim>\<open>qc.cx(q_register[r], q_register[r_])\<close>\<close>
  | Rx real           \<comment> \<open>\<^verbatim>\<open>qc.rx(angle, q_register)\<close>\<close>
  | H nat
  | Barrier           \<comment> \<open>\<^verbatim>\<open>qc.barrier()\<close>\<close>
  | Measure           \<comment> \<open>\<^verbatim>\<open>qc.measure(q_register, c_register)\<close>\<close>

type_synonym circuit = "gate list"

text \<open>The register has one qubit per entry of \<^verbatim>\<open>CR\<close> (\<^verbatim>\<open>options['CR'].size\<close>).\<close>

definition q_register :: "tail_assignment \<Rightarrow> nat \<Rightarrow> error + nat" where
  "q_register s r = (if r < length (CR s) then Inr r else Inl IndexError)"

definition CR_at :: "tail_assignment \<Rightarrow> nat \<Rightarrow> error + real" where
  "CR_at s r = (if r < length (CR s) then Inr (CR s ! r) else Inl IndexError)"

definition rz :: "tail_assignment \<Rightarrow> real \<Rightarrow> nat \<Rightarrow> circuit \<Rightarrow> error + circuit" where
  "rz s angle r qc = bind (q_register s r) (\<lambda>q. Inr (qc @ [Rz angle q]))"

definition cx :: "tail_assignment \<Rightarrow> nat \<Rightarrow> nat \<Rightarrow> circuit \<Rightarrow> error + circuit" where
  "cx s r r' qc =
     bind (q_register s r) (\<lambda>a. bind (q_register s r') (\<lambda>b. Inr (qc @ [Cx a b])))"

subsection \<open>Hamiltonian-to-circuit translator\<close>

text \<open>\<^verbatim>\<open>self.FR[:,r]\<close> and \<^verbatim>\<open>np.sum(self.FR,axis = 1)\<close>\<close>

definition column :: "tail_assignment \<Rightarrow> nat \<Rightarrow> real list" where
  "column s r = map (\<lambda>row. row ! r) (FR s)"

definition rowsum :: "tail_assignment \<Rightarrow> real list" where
  "rowsum s = map sum_list (FR s)"

text \<open>
  \<^verbatim>\<open>0.5 * self.mu * self.FR[:,r] @ (np.sum(self.FR,axis = 1) - 2)\<close>: the operators \<^verbatim>\<open>*\<close>
  and \<^verbatim>\<open>@\<close> have one precedence and associate to the left, so the column is scaled by
  \<^verbatim>\<open>0.5 * mu\<close> first and the product with the shifted row sums comes last.
\<close>

definition hr_exco :: "tail_assignment \<Rightarrow> nat \<Rightarrow> real" where
  "hr_exco s r = dot (map (\<lambda>v. 0.5 * mu s * v) (column s r)) (map (\<lambda>t. t - 2) (rowsum s))"

text \<open>\<^verbatim>\<open>0.5 * self.FR[:,r] @ self.FR[:,r_]\<close>\<close>

definition Jrr :: "tail_assignment \<Rightarrow> nat \<Rightarrow> nat \<Rightarrow> real" where
  "Jrr s r r' = dot (map (\<lambda>v. 0.5 * v) (column s r)) (column s r')"

text \<open>
  The inner loop of \<^verbatim>\<open>apply_exco\<close> and of \<^verbatim>\<open>apply_hamiltonian\<close> (the same text in both):
  \<^verbatim>\<open>
  for r_ in range(r+1,self.R):
      Jrr_  = 0.5 * self.FR[:,r] @ self.FR[:,r_]
      self.qc.cx(self.q_register[r], self.q_register[r_])
      self.qc.rz(gamma * Jrr_, self.q_register[r_])
      self.qc.cx(self.q_register[r], self.q_register[r_])
  \<close>
\<close>

fun coupling_loop ::
  "tail_assignment \<Rightarrow> real \<Rightarrow> nat \<Rightarrow> nat list \<Rightarrow> circuit \<Rightarrow> error + circuit" where
  "coupling_loop s gamma r [] qc = Inr qc"
| "coupling_loop s gamma r (r' # rs) qc =
     bind (cx s r r' qc) (\<lambda>qc1.
     bind (rz s (gamma * Jrr s r r') r' qc1) (\<lambda>qc2.
     bind (cx s r r' qc2) (\<lambda>qc3.
       coupling_loop s gamma r rs qc3)))"

text \<open>
  \<^verbatim>\<open>
  def apply_exco(self,gamma):
      for r in range(self.R):
          hr = 0.5 * self.mu * self.FR[:,r] @ (np.sum(self.FR,axis = 1) - 2)
          self.qc.rz( gamma * hr, self.q_register[r])
          for r_ in range(r+1,self.R): ...
  \<close>
\<close>

fun exco_loop :: "tail_assignment \<Rightarrow> real \<Rightarrow> nat list \<Rightarrow> circuit \<Rightarrow> error + circuit" where
  "exco_loop s gamma [] qc = Inr qc"
| "exco_loop s gamma (r # rs) qc =
     bind (rz s (gamma * hr_exco s r) r qc) (\<lambda>qc1.
     bind (coupling_loop s gamma r [r + 1..<R s] qc1) (\<lambda>qc2.
       exco_loop s gamma rs qc2))"

definition apply_exco :: "tail_assignment \<Rightarrow> real \<Rightarrow> circuit \<Rightarrow> error + circuit" where
  "apply_exco s gamma qc = exco_loop s gamma [0..<R s] qc"

text \<open>
  \<^verbatim>\<open>
  def apply_cost(self,gamma):
      for r in range(self.R):
          hr = 0.5 * self.CR[r]
          self.qc.rz(gamma * hr, self.q_register[r])
  \<close>
\<close>

fun cost_loop :: "tail_assignment \<Rightarrow> real \<Rightarrow> nat list \<Rightarrow> circuit \<Rightarrow> error + circuit" where
  "cost_loop s gamma [] qc = Inr qc"
| "cost_loop s gamma (r # rs) qc =
     bind (CR_at s r) (\<lambda>c.
     bind (rz s (gamma * (0.5 * c)) r qc) (\<lambda>qc1.
       cost_loop s gamma rs qc1))"

definition apply_cost :: "tail_assignment \<Rightarrow> real \<Rightarrow> circuit \<Rightarrow> error + circuit" where
  "apply_cost s gamma qc = cost_loop s gamma [0..<R s] qc"

text \<open>
  \<^verbatim>\<open>
  def apply_hamiltonian(self,gamma):
      for r in range(self.R):
          hr = 0.5 * self.CR[r] + 0.5 * self.mu * self.FR[:,r] @ (np.sum(self.FR,axis = 1) - 2)
          self.qc.rz( gamma * hr, self.q_register[r])
          for r_ in range(r+1,self.R): ...
  \<close>
\<close>

fun hamiltonian_loop ::
  "tail_assignment \<Rightarrow> real \<Rightarrow> nat list \<Rightarrow> circuit \<Rightarrow> error + circuit" where
  "hamiltonian_loop s gamma [] qc = Inr qc"
| "hamiltonian_loop s gamma (r # rs) qc =
     bind (CR_at s r) (\<lambda>c.
     bind (rz s (gamma * (0.5 * c + hr_exco s r)) r qc) (\<lambda>qc1.
     bind (coupling_loop s gamma r [r + 1..<R s] qc1) (\<lambda>qc2.
       hamiltonian_loop s gamma rs qc2)))"

definition apply_hamiltonian :: "tail_assignment \<Rightarrow> real \<Rightarrow> circuit \<Rightarrow> error + circuit" where
  "apply_hamiltonian s gamma qc = hamiltonian_loop s gamma [0..<R s] qc"

text \<open>\<^verbatim>\<open>self.qc.rx( - 2 * beta, self.q_register )\<close>\<close>

definition mix_states :: "real \<Rightarrow> circuit \<Rightarrow> circuit" where
  "mix_states beta qc = qc @ [Rx (- 2 * beta)]"

subsection \<open>Execution mode\<close>

text \<open>\<^verbatim>\<open>name.split('_')\<close>: the pieces between the underscores, empty pieces included.\<close>

fun split_underscore :: "string \<Rightarrow> string list" where
  "split_underscore [] = [[]]"
| "split_underscore (c # cs) =
     (if c = CHR ''_'' then [] # split_underscore cs
      else (case split_underscore cs of
              [] \<Rightarrow> [[c]]
            | p # ps \<Rightarrow> (c # p) # ps))"

text \<open>\<^verbatim>\<open>"statevector" in self.backend.name().split('_')\<close>\<close>

definition exact_mode :: "tail_assignment \<Rightarrow> bool" where
  "exact_mode s = (''statevector'' \<in> set (split_underscore (backend_name s)))"

subsection \<open>Circuit builder\<close>

text \<open>\<^verbatim>\<open>params[::2]\<close>; \<^verbatim>\<open>params[1::2]\<close> is the same on the list without its first element.\<close>

fun every_second :: "'a list \<Rightarrow> 'a list" where
  "every_second [] = []"
| "every_second [x] = [x]"
| "every_second (x # y # xs) = x # every_second xs"

definition item :: "'a list \<Rightarrow> nat \<Rightarrow> error + 'a" where
  "item xs i = (if i < length xs then Inr (xs ! i) else Inl IndexError)"

definition barrier_if_configured :: "tail_assignment \<Rightarrow> circuit \<Rightarrow> error + circuit" where
  "barrier_if_configured s qc =
     (case usebarrier s of
        None \<Rightarrow> Inl KeyError
      | Some ub \<Rightarrow> Inr (if ub then qc @ [Barrier] else qc))"

text \<open>
  The loop over the layers of \<^verbatim>\<open>createCircuit\<close>:
  \<^verbatim>\<open>
  for d in range(self.depth):
      gamma = gammas[d]
      beta  = betas[d]
      self.apply_hamiltonian(gamma)
      if self.options['usebarrier']: self.qc.barrier()
      self.mix_states(beta)
      if self.options['usebarrier']: self.qc.barrier()
  \<close>
\<close>

fun layer_loop ::
  "tail_assignment \<Rightarrow> real list \<Rightarrow> real list \<Rightarrow> nat list \<Rightarrow> circuit \<Rightarrow> error + circuit" where
  "layer_loop s gammas betas [] qc = Inr qc"
| "layer_loop s gammas betas (d # ds) qc =
     bind (item gammas d) (\<lambda>gamma.
     bind (item betas d) (\<lambda>beta.
     bind (apply_hamiltonian s gamma qc) (\<lambda>qc1.
     bind (barrier_if_configured s qc1) (\<lambda>qc2.
     bind (barrier_if_configured s (mix_states beta qc2)) (\<lambda>qc3.
       layer_loop s gammas betas ds qc3)))))"

text \<open>
  \<^verbatim>\<open>createCircuit\<close>. The base class's \<^verbatim>\<open>initial_state(self.R)\<close> is not part of this file:
  \<open>initial_state\<close> is the circuit it leaves, given the number of qubits.
  \<^verbatim>\<open>
  self.initial_state(self.R)
  gammas = params[::2]
  betas  = params[1::2]
  for d in range(self.depth): ...
  if "statevector" not in self.backend.name().split('_'):
      self.qc.measure(self.q_register,self.c_register)
  return self.qc
  \<close>
\<close>

definition createCircuit ::
  "(nat \<Rightarrow> circuit) \<Rightarrow> tail_assignment \<Rightarrow> real list \<Rightarrow> error + circuit" where
  "createCircuit initial_state s params =
     bind (layer_loop s (every_second params) (every_second (drop 1 params))
             [0..<depth s] (initial_state (R s))) (\<lambda>qc.
       Inr (if exact_mode s then qc else qc @ [Measure]))"

subsection \<open>Execution results\<close>

text \<open>
  What the execution collaborator returns: result blocks, each with its shot count and its
  counts, and a statevector when the simulation was exact. A key of \<^verbatim>\<open>counts\<close> is the
  measured bitstring written as an integer literal; the model keeps the integer that
  \<^verbatim>\<open>int(hexkey,0)\<close> reads from it. The entries are in the order of \<^verbatim>\<open>counts.keys()\<close>.
\<close>

record experiment_result =
  shots :: nat
  counts :: "(nat \<times> nat) list"

record job =
  results :: "experiment_result list"
  statevector :: "complex list option"

definition get_statevector :: "job \<Rightarrow> error + complex list" where
  "get_statevector j = (case statevector j of None \<Rightarrow> Inl NoStatevector | Some v \<Rightarrow> Inr v)"

text \<open>\<^verbatim>\<open>"{0:b}".format(n)\<close>: the binary digits of \<open>n\<close>, the most significant first.\<close>

fun format_b :: "nat \<Rightarrow> string" where
  "format_b n =
     (if n < 2 then [if n = 0 then CHR ''0'' else CHR ''1'']
      else format_b (n div 2) @ [if n mod 2 = 0 then CHR ''0'' else CHR ''1''])"

declare format_b.simps [simp del]

text \<open>\<^verbatim>\<open>str.zfill(width)\<close> on a string without a sign.\<close>

definition zfill :: "nat \<Rightarrow> string \<Rightarrow> string" where
  "zfill width str = replicate (width - length str) CHR ''0'' @ str"

text \<open>\<^verbatim>\<open>"{0:b}".format(int(hexkey,0)).zfill(width)\<close>, on the integer that the key denotes.\<close>

definition binstring_of :: "nat \<Rightarrow> nat \<Rightarrow> string" where
  "binstring_of width key = zfill width (format_b key)"

text \<open>
  \<^verbatim>\<open>np.vectorize(f)(xs)\<close>: \<open>f\<close> on every element; NumPy refuses an input of size 0 when
  the output type is not given.
\<close>

definition vectorize :: "('a \<Rightarrow> error + 'b) \<Rightarrow> 'a list \<Rightarrow> error + 'b list" where
  "vectorize f xs = (if xs = [] then Inl ValueError else map_err f xs)"

text \<open>\<^verbatim>\<open>probs = (np.abs(statevector))**2\<close>\<close>

definition probabilities :: "complex list \<Rightarrow> real list" where
  "probabilities sv = map (\<lambda>z. (cmod z)\<^sup>2) sv"

subsection \<open>Success probability\<close>

text \<open>
  The sampled branch of \<^verbatim>\<open>successProbability\<close> reads three names that neither the
  method nor the class nor the file defines: \<^verbatim>\<open>rN\<close>, \<^verbatim>\<open>FR\<close> and \<^verbatim>\<open>is_Solution\<close>. Python
  looks them up among the module's globals, where only \<^verbatim>\<open>from qaoa_OOP import *\<close> could have
  put them. The module's globals are a parameter of the model: each of the three names is
  either bound to a value or absent, and reading an absent name raises NameError.
\<close>

record module_globals =
  rN :: "nat option"
  global_FR :: "matrix option"
  is_Solution :: "(string \<Rightarrow> matrix \<Rightarrow> error + bool) option"

definition lookup_name :: "'a option \<Rightarrow> error + 'a" where
  "lookup_name binding = (case binding of None \<Rightarrow> Inl NameError | Some v \<Rightarrow> Inr v)"

text \<open>The globals as this file leaves them: none of the three names is bound.\<close>

definition file_globals :: module_globals where
  "file_globals = \<lparr>rN = None, global_FR = None, is_Solution = None\<rparr>"

text \<open>
  \<^verbatim>\<open>
  for hexkey in list(counts.keys()):
      count = counts[hexkey]
      binstring = "{0:b}".format(int(hexkey,0)).zfill(rN)
      if is_Solution(binstring, FR):
          s_prob += count/n_shots
  \<close>
  \<^verbatim>\<open>count\<close> and \<^verbatim>\<open>n_shots\<close> are Python integers: the division raises on zero. The names
  are read in the order of the text: \<^verbatim>\<open>rN\<close>, then \<^verbatim>\<open>is_Solution\<close>, then \<^verbatim>\<open>FR\<close>.
\<close>

fun success_counts_loop ::
  "module_globals \<Rightarrow> nat \<Rightarrow> (nat \<times> nat) list \<Rightarrow> real \<Rightarrow> error + real" where
  "success_counts_loop g n_shots [] s_prob = Inr s_prob"
| "success_counts_loop g n_shots ((key, count) # rest) s_prob =
     bind (lookup_name (rN g)) (\<lambda>width.
     bind (lookup_name (is_Solution g)) (\<lambda>test.
     bind (lookup_name (global_FR g)) (\<lambda>matrix.
     bind (test (binstring_of width key) matrix) (\<lambda>sol.
       if sol then
         (if n_shots = 0 then Inl ZeroDivisionError
          else success_counts_loop g n_shots rest (s_prob + real count / real n_shots))
       else success_counts_loop g n_shots rest s_prob))))"

fun success_results_loop ::
  "module_globals \<Rightarrow> experiment_result list \<Rightarrow> real \<Rightarrow> error + real" where
  "success_results_loop g [] s_prob = Inr s_prob"
| "success_results_loop g (result # rest) s_prob =
     bind (success_counts_loop g (shots result) (counts result) s_prob) (\<lambda>s_prob1.
       success_results_loop g rest s_prob1)"

text \<open>
  \<^verbatim>\<open>
  if "statevector" in self.backend.name().split('_'):
      experiment_results = job.result().results
      statevector = job.result().get_statevector()
      probs = (np.abs(statevector))**2
      s_prob = self.vector_is_solution(self.state_strings) @ probs
  else:
      experiment_results = job.result().results
      s_prob = 0
      for result in experiment_results: ...
  return s_prob
  \<close>
\<close>

definition success_exact :: "tail_assignment \<Rightarrow> job \<Rightarrow> error + real" where
  "success_exact s j =
     bind (get_statevector j) (\<lambda>sv.
     bind (vectorize (is_solution s) (state_strings s)) (\<lambda>sol.
       vecdot (map (\<lambda>b. if b then 1 else 0) sol) (probabilities sv)))"

definition success_sampled :: "module_globals \<Rightarrow> job \<Rightarrow> error + real" where
  "success_sampled g j = success_results_loop g (results j) 0"

definition successProbability :: "module_globals \<Rightarrow> tail_assignment \<Rightarrow> job \<Rightarrow> error + real" where
  "successProbability g s j = (if exact_mode s then success_exact s j else success_sampled g j)"

subsection \<open>Measurement statistics\<close>

text \<open>\<^verbatim>\<open>cost_best\<close> starts at \<^verbatim>\<open>- np.inf\<close>; \<^verbatim>\<open>max(cost_best, cost)\<close> keeps its first
  argument unless the second is greater.\<close>

datatype best = MinusInf | Finite real

fun py_max :: "best \<Rightarrow> real \<Rightarrow> best" where
  "py_max MinusInf c = Finite c"
| "py_max (Finite b) c = (if c > b then Finite c else Finite b)"

text \<open>
  \<^verbatim>\<open>
  for hexkey in list(counts.keys()):
      count     = counts[hexkey]
      binstring = "{0:b}".format(int(hexkey,0)).zfill(R)
      cost      = self.cost(binstring)
      cost_best = max(cost_best, cost)
      E        += cost*count/n_shots
  \<close>
  \<^verbatim>\<open>cost\<close> is a NumPy scalar: dividing by \<^verbatim>\<open>n_shots == 0\<close> does not raise, it gives
  \<^verbatim>\<open>inf\<close> or \<^verbatim>\<open>nan\<close>, reported here as \<open>NotFinite\<close>.
\<close>

fun statistics_counts_loop ::
  "tail_assignment \<Rightarrow> nat \<Rightarrow> nat \<Rightarrow> (nat \<times> nat) list \<Rightarrow> best \<times> real \<Rightarrow> error + best \<times> real" where
  "statistics_counts_loop s width n_shots [] (cost_best, E) = Inr (cost_best, E)"
| "statistics_counts_loop s width n_shots ((key, count) # rest) (cost_best, E) =
     bind (cost s (binstring_of width key)) (\<lambda>c.
       if n_shots = 0 then Inl NotFinite
       else statistics_counts_loop s width n_shots rest
              (py_max cost_best c, E + c * real count / real n_shots))"

text \<open>
  \<^verbatim>\<open>
  for i, result in enumerate(experiment_results):
      n_shots = result.shots
      counts = result.data.counts
      E  = 0
      for hexkey in list(counts.keys()): ...
      expectations[i] = E
  \<close>
\<close>

fun statistics_results_loop ::
  "tail_assignment \<Rightarrow> nat \<Rightarrow> experiment_result list \<Rightarrow> best \<Rightarrow> error + real list \<times> best" where
  "statistics_results_loop s width [] cost_best = Inr ([], cost_best)"
| "statistics_results_loop s width (result # rest) cost_best =
     bind (statistics_counts_loop s width (shots result) (counts result) (cost_best, 0))
       (\<lambda>(cost_best1, E).
     bind (statistics_results_loop s width rest cost_best1) (\<lambda>(expectations, cost_best2).
       Inr (E # expectations, cost_best2)))"

text \<open>
  The statevector branch:
  \<^verbatim>\<open>
  statevector = job.result().get_statevector()
  probs = np.abs(statevector)**2
  costs = self.vector_cost(self.state_strings)
  E     = costs @ probs
  best_sampled_state = np.max( costs @ np.ceil(probs))
  cost_best          = max(cost_best,best_sampled_state)
  expectations[0] = E
  \<close>
\<close>

definition statistics_exact ::
  "tail_assignment \<Rightarrow> job \<Rightarrow> error + real list \<times> real list option \<times> best" where
  "statistics_exact s j =
     bind (get_statevector j) (\<lambda>sv.
     bind (vectorize (cost s) (state_strings s)) (\<lambda>costs.
     bind (vecdot costs (probabilities sv)) (\<lambda>E.
     bind (vecdot costs (map (\<lambda>p. of_int \<lceil>p\<rceil>) (probabilities sv))) (\<lambda>best_sampled_state.
       if results j = [] then Inl IndexError
       else Inr ((replicate (length (results j)) 0)[0 := E], None,
                 py_max MinusInf best_sampled_state)))))"

definition statistics_sampled ::
  "tail_assignment \<Rightarrow> nat \<Rightarrow> job \<Rightarrow> error + real list \<times> real list option \<times> best" where
  "statistics_sampled s width j =
     bind (statistics_results_loop s width (results j) MinusInf) (\<lambda>(expectations, cost_best).
       Inr (expectations, None, cost_best))"

text \<open>
  \<^verbatim>\<open>
  R         = np.size(self.FR[0,:])
  cost_best = - np.inf
  experiment_results = job.result().results
  expectations = np.zeros(len(experiment_results))
  if "statevector" in self.backend.name().split('_'): ...
  else: ...
  return expectations, None , cost_best
  \<close>
\<close>

definition measurementStatistics ::
  "tail_assignment \<Rightarrow> job \<Rightarrow> error + real list \<times> real list option \<times> best" where
  "measurementStatistics s j =
     (case FR s of
        [] \<Rightarrow> Inl IndexError
      | row # _ \<Rightarrow>
          if exact_mode s then statistics_exact s j
          else statistics_sampled s (length row) j)"

subsection \<open>Example objects\<close>

text \<open>
  The end-to-end scenario of the specification: the 2-by-2 identity as \<^verbatim>\<open>FR\<close>, unit costs,
  \<^verbatim>\<open>mu = 1\<close>, one layer, on a sampling backend.
\<close>

definition identity_problem :: tail_assignment where
  "identity_problem =
     \<lparr>FR = [[1, 0], [0, 1]], CR = [1, 1], mu = 1, F = 2, R = 2, depth = 1,
      usebarrier = Some False, backend_name = ''qasm_simulator'',
      state_strings = [''00'', ''01'', ''10'', ''11'']\<rparr>"

text \<open>The same problem on the statevector simulator.\<close>

definition identity_problem_exact :: tail_assignment where
  "identity_problem_exact = identity_problem\<lparr>backend_name := ''statevector_simulator''\<rparr>"

text \<open>One task that only resource 0 covers, over three resources.\<close>

definition single_task :: tail_assignment where
  "single_task =
     \<lparr>FR = [[1, 0, 0]], CR = [1, 2, 3], mu = 1, F = 1, R = 3, depth = 1,
      usebarrier = Some False, backend_name = ''qasm_simulator'',
      state_strings = []\<rparr>"

subsection \<open>The gate sequence of the specification\<close>

text \<open>
  The sequence the specification describes, for local-field angles \<open>h\<close> and coupling
  angles \<open>J\<close> on \<open>n\<close> qubits: for each qubit \<open>r\<close> in \<open>0..n-1\<close> one rotation by \<open>h r\<close>, then
  for each \<open>r'\<close> in \<open>r+1..n-1\<close> a controlled gate, a rotation by \<open>J r r'\<close> on \<open>r'\<close> and the
  controlled gate again.
\<close>

definition gate_sequence :: "(nat \<Rightarrow> real) \<Rightarrow> (nat \<Rightarrow> nat \<Rightarrow> real) \<Rightarrow> nat \<Rightarrow> circuit" where
  "gate_sequence h J n =
     concat (map (\<lambda>r. Rz (h r) r #
                      concat (map (\<lambda>r'. [Cx r r', Rz (J r r') r', Cx r r']) [r + 1..<n]))
                 [0..<n])"

text \<open>The angles in the specification's words: \<open>0.5*mu*FR[:,r]\<cdot>(rowsum(FR)-2)\<close> and
  \<open>0.5*FR[:,r]\<cdot>FR[:,r']\<close>.\<close>

definition spec_hr_exco :: "tail_assignment \<Rightarrow> nat \<Rightarrow> real" where
  "spec_hr_exco s r = 0.5 * mu s * (\<Sum>f<F s. FR s ! f ! r * ((\<Sum>c<R s. FR s ! f ! c) - 2))"

definition spec_Jrr :: "tail_assignment \<Rightarrow> nat \<Rightarrow> nat \<Rightarrow> real" where
  "spec_Jrr s r r' = 0.5 * (\<Sum>f<F s. FR s ! f ! r * FR s ! f ! r')"

definition spec_hamiltonian_gates :: "tail_assignment \<Rightarrow> real \<Rightarrow> circuit" where
  "spec_hamiltonian_gates s gamma =
     gate_sequence (\<lambda>r. gamma * (0.5 * CR s ! r + spec_hr_exco s r))
                   (\<lambda>r r'. gamma * spec_Jrr s r r') (R s)"

definition spec_exco_gates :: "tail_assignment \<Rightarrow> real \<Rightarrow> circuit" where
  "spec_exco_gates s gamma =
     gate_sequence (\<lambda>r. gamma * spec_hr_exco s r) (\<lambda>r r'. gamma * spec_Jrr s r r') (R s)"

text \<open>
  Reading a circuit back: the qubit pairs of its entangle-rotate-disentangle triples, in
  order, and the rotations that are not inside such a triple (the local fields), each
  with its qubit.
\<close>

fun couplings :: "circuit \<Rightarrow> (nat \<times> nat) list" where
  "couplings (Cx a b # Rz t q # Cx c d # gs) = (a, b) # couplings gs"
| "couplings (g # gs) = couplings gs"
| "couplings [] = []"

fun local_fields :: "circuit \<Rightarrow> (nat \<times> real) list" where
  "local_fields (Cx a b # Rz t q # Cx c d # gs) = local_fields gs"
| "local_fields (Rz t q # gs) = (q, t) # local_fields gs"
| "local_fields (g # gs) = local_fields gs"
| "local_fields [] = []"

definition rotations_on :: "nat \<Rightarrow> circuit \<Rightarrow> real list" where
  "rotations_on r qc = map snd (filter (\<lambda>qt. fst qt = r) (local_fields qc))"

definition overlap_problem :: tail_assignment where
  "overlap_problem =
     \<lparr>FR = [[1, 1], [0, 1]], CR = [1, 3], mu = 2, F = 2, R = 2, depth = 1,
      usebarrier = Some True, backend_name = ''qasm_simulator'',
      state_strings = [''00'', ''01'', ''10'', ''11'']\<rparr>"

subsection \<open>Substrings\<close>

text \<open>\<^verbatim>\<open>sub in name\<close> on strings: \<open>sub\<close> occurs in \<open>name\<close> as a run of consecutive characters.\<close>

fun starts_with :: "string \<Rightarrow> string \<Rightarrow> bool" where
  "starts_with [] name = True"
| "starts_with (c # sub) [] = False"
| "starts_with (c # sub) (d # name) = (c = d \<and> starts_with sub name)"

fun contains_substring :: "string \<Rightarrow> string \<Rightarrow> bool" where
  "contains_substring sub [] = (sub = [])"
| "contains_substring sub (d # name) = (starts_with sub (d # name) \<or> contains_substring sub name)"

text \<open>A backend whose name contains the word without having it as a piece.\<close>

definition lookalike_backend :: tail_assignment where
  "lookalike_backend = identity_problem\<lparr>backend_name := ''statevectorsimulator''\<rparr>"

text \<open>What the base class is taken to prepare in the examples: a Hadamard gate on every qubit.\<close>

definition hadamard_layer :: "nat \<Rightarrow> circuit" where
  "hadamard_layer n = map H [0..<n]"

subsection \<open>Example results\<close>

text \<open>An exact result on two qubits with all four amplitudes equal.\<close>

definition uniform_job :: job where
  "uniform_job =
     \<lparr>results = [\<lparr>shots = 1, counts = []\<rparr>], statevector = Some [1 / 2, 1 / 2, 1 / 2, 1 / 2]\<rparr>"

text \<open>The counts \<^verbatim>\<open>{"001": 7, "110": 3}\<close> of the specification, ten shots.\<close>

definition sampled_job :: job where
  "sampled_job = \<lparr>results = [\<lparr>shots = 10, counts = [(1, 7), (6, 3)]\<rparr>], statevector = None\<rparr>"

text \<open>Two experiment results of ten shots, each measuring \<^verbatim>\<open>001\<close> every time.\<close>

definition repeated_job :: job where
  "repeated_job =
     \<lparr>results = [\<lparr>shots = 10, counts = [(1, 10)]\<rparr>, \<lparr>shots = 10, counts = [(1, 10)]\<rparr>],
      statevector = None\<rparr>"

text \<open>A sampled result whose counts are empty.\<close>

definition empty_job :: job where
  "empty_job = \<lparr>results = [\<lparr>shots = 10, counts = []\<rparr>], statevector = None\<rparr>"

subsection \<open>The statistics of the specification\<close>

text \<open>
  The shots of one experiment result whose bitstring is a solution; the fraction of all
  shots of a job whose bitstring is a solution; the shot-weighted cost of one experiment
  result; the costs of all measured bitstrings of a job; the greatest element of a list,
  \<open>MinusInf\<close> when there is none.
\<close>

definition solution_shots :: "tail_assignment \<Rightarrow> experiment_result \<Rightarrow> nat" where
  "solution_shots s result =
     (\<Sum>(key, count)\<leftarrow>counts result.
        if spec_is_solution s (binstring_of (R s) key) then count else 0)"

definition spec_total_fraction :: "tail_assignment \<Rightarrow> job \<Rightarrow> real" where
  "spec_total_fraction s j =
     real (\<Sum>result\<leftarrow>results j. solution_shots s result)
       / real (\<Sum>result\<leftarrow>results j. shots result)"

definition spec_expectation :: "tail_assignment \<Rightarrow> experiment_result \<Rightarrow> real" where
  "spec_expectation s result =
     (\<Sum>(key, count)\<leftarrow>counts result.
        spec_cost s (binstring_of (R s) key) * real count / real (shots result))"

definition measured_costs :: "tail_assignment \<Rightarrow> job \<Rightarrow> real list" where
  "measured_costs s j =
     concat (map (\<lambda>result. map (\<lambda>(key, count). spec_cost s (binstring_of (R s) key))
                               (counts result))
                 (results j))"

definition maximum :: "real list \<Rightarrow> best" where
  "maximum cs = (case cs of [] \<Rightarrow> MinusInf | c # cs' \<Rightarrow> Finite (Max (set (c # cs'))))"

section \<open>Proofs: the cost model\<close>

lemma int_of_char_bit:
  "c = CHR ''0'' \<or> c = CHR ''1'' \<Longrightarrow> int_of_char c = Inr (if c = CHR ''1'' then 1 else 0)"
  by (auto simp: int_of_char_def)

lemma map_err_bits:
  "bitstring cs \<Longrightarrow> map_err int_of_char cs = Inr (map (\<lambda>c. if c = CHR ''1'' then 1 else 0) cs)"
  by (induction cs) (auto simp: bitstring_def bind_def int_of_char_bit)

lemma reversed_array_bits:
  assumes "bitstring b"
  shows "reversed_array b = Inr (map (xbit b) [0..<length b])"
proof -
  have "bitstring (rev b)" using assms by (simp add: bitstring_def)
  then have "reversed_array b = Inr (map (\<lambda>c. if c = CHR ''1'' then 1 else 0) (rev b))"
    unfolding reversed_array_def by (rule map_err_bits)
  moreover have "map (\<lambda>c. if c = CHR ''1'' then 1 else 0) (rev b) = map (xbit b) [0..<length b]"
    by (rule nth_equalityI) (simp_all add: xbit_def rev_nth)
  ultimately show ?thesis by simp
qed

lemma dot_sum:
  "length xs = n \<Longrightarrow> dot xs (map f [0..<n]) = (\<Sum>i<n. xs ! i * f i)"
proof -
  assume n: "length xs = n"
  have "dot xs (map f [0..<n]) = sum_list (map (\<lambda>i. xs ! i * f i) [0..<n])"
    unfolding dot_def
    by (rule arg_cong [where f = sum_list], rule nth_equalityI) (simp_all add: n)
  also have "\<dots> = (\<Sum>i<n. xs ! i * f i)"
    by (simp add: sum_list_sum_nth atLeast0LessThan)
  finally show ?thesis .
qed

lemma sum_list_rows:
  "sum_list (map g xs) = (\<Sum>f<length xs. g (xs ! f))"
proof -
  have "map g xs = map (\<lambda>i. g (xs ! i)) [0..<length xs]"
    by (rule nth_equalityI) simp_all
  then show ?thesis
    by (simp add: sum_list_sum_nth atLeast0LessThan)
qed

lemma rows_length: "well_formed s \<Longrightarrow> f < F s \<Longrightarrow> length (FR s ! f) = R s"
  by (simp add: well_formed_def list_all_length)

lemma cost_closed:
  assumes "well_formed s" and "length b = R s" and "bitstring b"
  shows "cost s b = Inr (spec_cost s b)"
proof -
  let ?x = "map (xbit b) [0..<R s]"
  have x: "reversed_array b = Inr ?x"
    using reversed_array_bits [OF assms(3)] assms(2) by simp
  have lin: "vecdot (CR s) ?x = Inr (\<Sum>r<R s. CR s ! r * xbit b r)"
    using assms(1) by (simp add: vecdot_def dot_sum well_formed_def)
  have mv: "matvec s ?x = Inr (map (\<lambda>row. dot row ?x) (FR s))"
    by (simp add: matvec_def)
  have pen: "sum_list (map (\<lambda>y. (1 - y)\<^sup>2) (map (\<lambda>row. dot row ?x) (FR s)))
      = (\<Sum>f<F s. (1 - (\<Sum>r<R s. FR s ! f ! r * xbit b r))\<^sup>2)"
  proof -
    have "sum_list (map (\<lambda>y. (1 - y)\<^sup>2) (map (\<lambda>row. dot row ?x) (FR s)))
        = (\<Sum>f<length (FR s). (1 - dot (FR s ! f) ?x)\<^sup>2)"
      by (simp add: sum_list_rows [of "\<lambda>row. (1 - dot row ?x)\<^sup>2" "FR s"] comp_def)
    also have "\<dots> = (\<Sum>f<F s. (1 - (\<Sum>r<R s. FR s ! f ! r * xbit b r))\<^sup>2)"
      using assms(1) rows_length [OF assms(1)] by (simp add: well_formed_def dot_sum)
    finally show ?thesis .
  qed
  show ?thesis
    unfolding cost_def spec_cost_def by (simp only: x lin mv pen bind_def sum.case)
qed

lemma is_solution_closed:
  assumes "well_formed s" and "length b = R s" and "bitstring b"
  shows "is_solution s b = Inr (spec_is_solution s b)"
proof -
  let ?x = "map (xbit b) [0..<R s]"
  have x: "reversed_array b = Inr ?x"
    using reversed_array_bits [OF assms(3)] assms(2) by simp
  have bm: "broadcast_mul s ?x = Inr (map (\<lambda>row. map2 (*) row ?x) (FR s))"
    by (simp add: broadcast_mul_def)
  have "list_all (\<lambda>row. sum_list row - 1 = 0) (map (\<lambda>row. map2 (*) row ?x) (FR s))
      = (\<forall>f<F s. dot (FR s ! f) ?x = 1)"
    using assms(1) by (simp add: list_all_length dot_def well_formed_def)
  also have "\<dots> = spec_is_solution s b"
    using rows_length [OF assms(1)] by (simp add: spec_is_solution_def dot_sum)
  finally show ?thesis
    unfolding is_solution_def by (simp only: x bm bind_def sum.case)
qed

lemma feasible_cost:
  "spec_is_solution s b \<Longrightarrow> spec_cost s b = - (\<Sum>r<R s. CR s ! r * xbit b r)"
  by (simp add: spec_cost_def spec_is_solution_def)

lemma identity_problem_wf: "well_formed identity_problem"
  by (simp add: identity_problem_def well_formed_def)

lemma single_task_wf: "well_formed single_task"
  by (simp add: single_task_def well_formed_def)

text \<open>
  C1. For a bitstring \<open>b\<close> of length \<open>R\<close>, \<open>cost\<close> returns the negative of the linear
  term \<open>CR \<cdot> x\<close> plus \<open>mu\<close> times the sum over the rows \<open>f\<close> of \<open>(1 - (FR \<cdot> x)\<^sub>f)\<^sup>2\<close>,
  where entry \<open>r\<close> of \<open>x\<close> is the bit at position \<open>R - 1 - r\<close> of \<open>b\<close> (the string reversed).
\<close>

theorem cost_formula:
  assumes "well_formed s" and "length b = R s" and "bitstring b"
  shows "cost s b =
    Inr (- ((\<Sum>r<R s. CR s ! r * xbit b r)
            + mu s * (\<Sum>f<F s. (1 - (\<Sum>r<R s. FR s ! f ! r * xbit b r))\<^sup>2)))"
  using cost_closed [OF assms] by (simp only: spec_cost_def)

theorem cost_formula_witness:
  "well_formed identity_problem \<and> length ''10'' = R identity_problem \<and> bitstring ''10''
   \<and> cost identity_problem ''10'' = Inr (- 2)
   \<and> xbit ''10'' 0 = 0 \<and> xbit ''10'' 1 = 1"
proof -
  have h: "length ''10'' = R identity_problem" "bitstring ''10''"
    by (simp_all add: identity_problem_def bitstring_def)
  show ?thesis
    using cost_formula [OF identity_problem_wf h] h identity_problem_wf
    by (simp add: identity_problem_def xbit_def lessThan_Suc eval_nat_numeral)
qed

text \<open>
  C2. For a bitstring \<open>b\<close> of length \<open>R\<close>, \<open>is_solution\<close> returns true if and only if
  every row of \<open>FR\<close>, weighted by the assignment vector of \<open>b\<close> (the string reversed) and
  summed, is exactly 1. The result is a function of the object and the string alone: the
  method writes nothing.
\<close>

theorem is_solution_exact_cover:
  assumes "well_formed s" and "length b = R s" and "bitstring b"
  shows "is_solution s b = Inr (\<forall>f<F s. (\<Sum>r<R s. FR s ! f ! r * xbit b r) = 1)"
  using is_solution_closed [OF assms] by (simp only: spec_is_solution_def)

theorem is_solution_exact_cover_witness:
  "well_formed identity_problem \<and> length ''11'' = R identity_problem \<and> bitstring ''11''
   \<and> is_solution identity_problem ''11'' = Inr True"
proof -
  have h: "length ''11'' = R identity_problem" "bitstring ''11''"
    by (simp_all add: identity_problem_def bitstring_def)
  show ?thesis
    using is_solution_exact_cover [OF identity_problem_wf h] h identity_problem_wf
    by (simp add: identity_problem_def xbit_def lessThan_Suc eval_nat_numeral
        less_Suc_eq all_conj_distrib)
qed

text \<open>
  C10. For a bitstring \<open>b\<close> of length \<open>R\<close> on which \<open>is_solution\<close> is true, \<open>cost\<close> is
  exactly \<open>- (CR \<cdot> x)\<close>: the penalty term vanishes, whatever \<open>mu\<close> is.
\<close>

theorem feasible_cost_is_linear:
  assumes "well_formed s" and "length b = R s" and "bitstring b"
    and "is_solution s b = Inr True"
  shows "cost s b = Inr (- (\<Sum>r<R s. CR s ! r * xbit b r))"
proof -
  have "spec_is_solution s b"
    using is_solution_closed [OF assms(1-3)] assms(4) by simp
  then show ?thesis
    using cost_closed [OF assms(1-3)] by (simp add: feasible_cost)
qed

theorem feasible_cost_is_linear_witness:
  "well_formed identity_problem \<and> length ''11'' = R identity_problem \<and> bitstring ''11''
   \<and> is_solution identity_problem ''11'' = Inr True
   \<and> cost identity_problem ''11'' = Inr (- 2)"
proof -
  have h: "length ''11'' = R identity_problem" "bitstring ''11''"
    by (simp_all add: identity_problem_def bitstring_def)
  have sol: "is_solution identity_problem ''11'' = Inr True"
    by (simp add: identity_problem_def is_solution_def reversed_array_def bind_def
        int_of_char_def broadcast_mul_def)
  show ?thesis
    using feasible_cost_is_linear [OF identity_problem_wf h sol] h sol identity_problem_wf
    by (simp add: identity_problem_def xbit_def lessThan_Suc eval_nat_numeral)
qed

section \<open>Proofs: the translator\<close>

lemma dot_nth:
  "length xs = length ys \<Longrightarrow> dot xs ys = (\<Sum>i<length xs. xs ! i * ys ! i)"
proof -
  assume len: "length xs = length ys"
  have "map2 (*) xs ys = map (\<lambda>i. xs ! i * ys ! i) [0..<length xs]"
    by (rule nth_equalityI) (simp_all add: len)
  then show ?thesis
    by (simp add: dot_def sum_list_sum_nth atLeast0LessThan)
qed

lemma sum_list_nth_sum: "sum_list xs = (\<Sum>i<length xs. xs ! i)"
  by (simp add: sum_list_sum_nth atLeast0LessThan)

lemma hr_exco_spec:
  assumes "well_formed s"
  shows "hr_exco s r = spec_hr_exco s r"
proof -
  have len: "F s = length (FR s)"
    using assms by (simp add: well_formed_def)
  have "hr_exco s r = (\<Sum>f<F s. 0.5 * mu s * (FR s ! f ! r) * (sum_list (FR s ! f) - 2))"
    by (simp add: hr_exco_def dot_nth column_def rowsum_def len)
  also have "\<dots> = (\<Sum>f<F s. 0.5 * mu s * (FR s ! f ! r * ((\<Sum>c<R s. FR s ! f ! c) - 2)))"
    using rows_length [OF assms] by (simp add: sum_list_nth_sum mult.assoc)
  also have "\<dots> = spec_hr_exco s r"
    by (simp only: spec_hr_exco_def sum_distrib_left)
  finally show ?thesis .
qed

lemma Jrr_spec:
  assumes "well_formed s"
  shows "Jrr s r r' = spec_Jrr s r r'"
proof -
  have len: "F s = length (FR s)"
    using assms by (simp add: well_formed_def)
  have "Jrr s r r' = (\<Sum>f<F s. 0.5 * (FR s ! f ! r * FR s ! f ! r'))"
    by (simp add: Jrr_def dot_nth column_def len)
  then show ?thesis
    by (simp only: spec_Jrr_def sum_distrib_left)
qed

lemma coupling_loop_closed:
  assumes "r < length (CR s)" and "\<forall>r'\<in>set rs. r' < length (CR s)"
  shows "coupling_loop s gamma r rs qc =
    Inr (qc @ concat (map (\<lambda>r'. [Cx r r', Rz (gamma * Jrr s r r') r', Cx r r']) rs))"
  using assms
  by (induction rs arbitrary: qc) (simp_all add: cx_def rz_def q_register_def bind_def)

lemma hamiltonian_loop_closed:
  assumes "length (CR s) = R s" and "\<forall>r\<in>set rs. r < R s"
  shows "hamiltonian_loop s gamma rs qc =
    Inr (qc @ concat (map (\<lambda>r. Rz (gamma * (0.5 * CR s ! r + hr_exco s r)) r #
            concat (map (\<lambda>r'. [Cx r r', Rz (gamma * Jrr s r r') r', Cx r r']) [r + 1..<R s]))
          rs))"
  using assms(2)
proof (induction rs arbitrary: qc)
  case Nil
  show ?case by simp
next
  case (Cons r rs)
  have r: "r < length (CR s)" and inner: "\<forall>r'\<in>set [Suc r..<R s]. r' < length (CR s)"
    using Cons.prems assms(1) by simp_all
  have rest: "\<forall>r\<in>set rs. r < R s"
    using Cons.prems by simp
  show ?case
    using r
    by (simp add: CR_at_def rz_def q_register_def
        coupling_loop_closed [OF r inner] Cons.IH [OF rest] bind_def)
qed

lemma exco_loop_closed:
  assumes "length (CR s) = R s" and "\<forall>r\<in>set rs. r < R s"
  shows "exco_loop s gamma rs qc =
    Inr (qc @ concat (map (\<lambda>r. Rz (gamma * hr_exco s r) r #
            concat (map (\<lambda>r'. [Cx r r', Rz (gamma * Jrr s r r') r', Cx r r']) [r + 1..<R s]))
          rs))"
  using assms(2)
proof (induction rs arbitrary: qc)
  case Nil
  show ?case by simp
next
  case (Cons r rs)
  have r: "r < length (CR s)" and inner: "\<forall>r'\<in>set [Suc r..<R s]. r' < length (CR s)"
    using Cons.prems assms(1) by simp_all
  have rest: "\<forall>r\<in>set rs. r < R s"
    using Cons.prems by simp
  show ?case
    using r
    by (simp add: rz_def q_register_def
        coupling_loop_closed [OF r inner] Cons.IH [OF rest] bind_def)
qed

lemma cost_loop_closed:
  assumes "\<forall>r\<in>set rs. r < length (CR s)"
  shows "cost_loop s gamma rs qc =
    Inr (qc @ map (\<lambda>r. Rz (gamma * (0.5 * CR s ! r)) r) rs)"
  using assms
  by (induction rs arbitrary: qc) (simp_all add: CR_at_def rz_def q_register_def bind_def)

lemma apply_hamiltonian_closed:
  assumes "well_formed s"
  shows "apply_hamiltonian s gamma qc = Inr (qc @ spec_hamiltonian_gates s gamma)"
proof -
  have len: "length (CR s) = R s"
    using assms by (simp add: well_formed_def)
  show ?thesis
    unfolding apply_hamiltonian_def spec_hamiltonian_gates_def gate_sequence_def
    by (simp add: hamiltonian_loop_closed [OF len] hr_exco_spec [OF assms] Jrr_spec [OF assms])
qed

lemma apply_exco_closed:
  assumes "well_formed s"
  shows "apply_exco s gamma qc = Inr (qc @ spec_exco_gates s gamma)"
proof -
  have len: "length (CR s) = R s"
    using assms by (simp add: well_formed_def)
  show ?thesis
    unfolding apply_exco_def spec_exco_gates_def gate_sequence_def
    by (simp add: exco_loop_closed [OF len] hr_exco_spec [OF assms] Jrr_spec [OF assms])
qed

lemma apply_cost_closed:
  assumes "well_formed s"
  shows "apply_cost s gamma qc = Inr (qc @ map (\<lambda>r. Rz (gamma * (0.5 * CR s ! r)) r) [0..<R s])"
proof -
  have "\<forall>r\<in>set [0..<R s]. r < length (CR s)"
    using assms by (simp add: well_formed_def)
  then show ?thesis
    unfolding apply_cost_def by (rule cost_loop_closed)
qed

subsection \<open>Reading the sequence back\<close>

lemma couplings_triples:
  "couplings (concat (map (\<lambda>r'. [Cx r r', Rz (J r') r', Cx r r']) rs) @ rest)
     = map (Pair r) rs @ couplings rest"
  by (induction rs) simp_all

lemma couplings_blocks:
  "couplings (concat (map (\<lambda>r. Rz (h r) r #
       concat (map (\<lambda>r'. [Cx r r', Rz (J r r') r', Cx r r']) (g r))) rs))
     = concat (map (\<lambda>r. map (Pair r) (g r)) rs)"
  by (induction rs) (simp_all add: couplings_triples)

lemma couplings_gate_sequence:
  "couplings (gate_sequence h J n) = concat (map (\<lambda>r. map (Pair r) [r + 1..<n]) [0..<n])"
  unfolding gate_sequence_def by (rule couplings_blocks)

lemma distinct_pairs:
  "distinct rs \<Longrightarrow> (\<And>r. distinct (g r)) \<Longrightarrow>
     distinct (concat (map (\<lambda>r. map (Pair r) (g r)) rs))"
  by (induction rs) (auto simp: distinct_map inj_on_def)

lemma couplings_distinct: "distinct (couplings (gate_sequence h J n))"
  by (simp add: couplings_gate_sequence distinct_pairs)

lemma couplings_set:
  "set (couplings (gate_sequence h J n)) = {(r, r'). r < r' \<and> r' < n}"
proof (rule set_eqI)
  fix p :: "nat \<times> nat"
  obtain a b where p: "p = (a, b)" by (cases p)
  have "(a, b) \<in> set (couplings (gate_sequence h J n))
      \<longleftrightarrow> (\<exists>x\<in>{0..<n}. (a, b) \<in> Pair x ` {Suc x..<n})"
    by (simp add: couplings_gate_sequence)
  also have "\<dots> \<longleftrightarrow> a < b \<and> b < n"
  proof
    assume "\<exists>x\<in>{0..<n}. (a, b) \<in> Pair x ` {Suc x..<n}"
    then show "a < b \<and> b < n" by auto
  next
    assume ab: "a < b \<and> b < n"
    then have "a \<in> {0..<n}" and "(a, b) \<in> Pair a ` {Suc a..<n}" by auto
    then show "\<exists>x\<in>{0..<n}. (a, b) \<in> Pair x ` {Suc x..<n}" by (rule bexI [rotated])
  qed
  finally show "p \<in> set (couplings (gate_sequence h J n)) \<longleftrightarrow> p \<in> {(r, r'). r < r' \<and> r' < n}"
    by (simp add: p)
qed

lemma local_fields_triples:
  "local_fields (concat (map (\<lambda>r'. [Cx r r', Rz (J r') r', Cx r r']) rs) @ rest)
     = local_fields rest"
  by (induction rs) simp_all

lemma local_fields_blocks:
  "local_fields (concat (map (\<lambda>r. Rz (h r) r #
       concat (map (\<lambda>r'. [Cx r r', Rz (J r r') r', Cx r r']) (g r))) rs))
     = map (\<lambda>r. (r, h r)) rs"
  by (induction rs) (simp_all add: local_fields_triples)

lemma local_fields_gate_sequence:
  "local_fields (gate_sequence h J n) = map (\<lambda>r. (r, h r)) [0..<n]"
  unfolding gate_sequence_def by (rule local_fields_blocks)

lemma local_fields_rotations:
  "local_fields (map (\<lambda>r. Rz (h r) r) rs) = map (\<lambda>r. (r, h r)) rs"
  by (induction rs) simp_all

lemma filter_index:
  "r < n \<Longrightarrow> map snd (filter (\<lambda>qt. fst qt = r) (map (\<lambda>r. (r, h r)) [0..<n])) = [h r]"
proof (induction n)
  case 0
  then show ?case by simp
next
  case (Suc n)
  show ?case
  proof (cases "r = n")
    case True
    have "filter (\<lambda>qt. fst qt = n) (map (\<lambda>r. (r, h r)) [0..<n]) = []"
      by (auto simp: filter_empty_conv)
    with True show ?thesis by simp
  next
    case False
    with Suc show ?thesis by simp
  qed
qed

lemma rotations_on_gate_sequence:
  "r < n \<Longrightarrow> rotations_on r (gate_sequence h J n) = [h r]"
  by (simp add: rotations_on_def local_fields_gate_sequence filter_index)

lemma rotations_on_rotations:
  "r < n \<Longrightarrow> rotations_on r (map (\<lambda>r. Rz (h r) r) [0..<n]) = [h r]"
  by (simp add: rotations_on_def local_fields_rotations filter_index)

lemma overlap_problem_wf: "well_formed overlap_problem"
  by (simp add: overlap_problem_def well_formed_def)

text \<open>
  C3. For every angle \<open>gamma\<close>, \<open>apply_hamiltonian\<close> appends, for each qubit \<open>r\<close> in
  \<open>0..R-1\<close>, one rotation by \<open>gamma*(0.5*CR[r] + 0.5*mu*FR[:,r]\<cdot>(rowsum(FR)-2))\<close> on \<open>r\<close> and
  then, for each \<open>r'\<close> in \<open>r+1..R-1\<close>, a controlled gate, a rotation by
  \<open>gamma*0.5*FR[:,r]\<cdot>FR[:,r']\<close> on \<open>r'\<close> and the controlled gate again; \<open>apply_exco\<close> appends
  the same structure with the local-field angle \<open>gamma*0.5*mu*FR[:,r]\<cdot>(rowsum(FR)-2)\<close>. The
  coupled pairs are exactly the pairs \<open>r < r' < R\<close>, each once: no pair twice, none with
  itself, none in both orders.
\<close>

theorem translator_gate_sequence:
  assumes "well_formed s"
  shows "apply_hamiltonian s gamma qc = Inr (qc @ spec_hamiltonian_gates s gamma)
       \<and> apply_exco s gamma qc = Inr (qc @ spec_exco_gates s gamma)
       \<and> distinct (couplings (spec_hamiltonian_gates s gamma))
       \<and> set (couplings (spec_hamiltonian_gates s gamma)) = {(r, r'). r < r' \<and> r' < R s}
       \<and> distinct (couplings (spec_exco_gates s gamma))
       \<and> set (couplings (spec_exco_gates s gamma)) = {(r, r'). r < r' \<and> r' < R s}"
proof -
  have "apply_hamiltonian s gamma qc = Inr (qc @ spec_hamiltonian_gates s gamma)"
    using assms by (rule apply_hamiltonian_closed)
  moreover have "apply_exco s gamma qc = Inr (qc @ spec_exco_gates s gamma)"
    using assms by (rule apply_exco_closed)
  moreover have "distinct (couplings (spec_hamiltonian_gates s gamma))"
    and "distinct (couplings (spec_exco_gates s gamma))"
    unfolding spec_hamiltonian_gates_def spec_exco_gates_def by (rule couplings_distinct)+
  moreover have "set (couplings (spec_hamiltonian_gates s gamma)) = {(r, r'). r < r' \<and> r' < R s}"
    and "set (couplings (spec_exco_gates s gamma)) = {(r, r'). r < r' \<and> r' < R s}"
    unfolding spec_hamiltonian_gates_def spec_exco_gates_def by (rule couplings_set)+
  ultimately show ?thesis by simp
qed

theorem translator_gate_sequence_witness:
  "well_formed overlap_problem
   \<and> apply_hamiltonian overlap_problem 2 [] = Inr [Rz 1 0, Cx 0 1, Rz 1 1, Cx 0 1, Rz 1 1]
   \<and> apply_exco overlap_problem 2 [] = Inr [Rz 0 0, Cx 0 1, Rz 1 1, Cx 0 1, Rz (- 2) 1]"
proof -
  have two: "[0..<2] = [0, 1]" "[Suc 0..<2] = [1]" "[2..<2] = []"
    by (simp_all add: upt_rec)
  have r: "R overlap_problem = 2" "F overlap_problem = 2"
    by (simp_all add: overlap_problem_def)
  have h: "spec_hr_exco overlap_problem 0 = 0" "spec_hr_exco overlap_problem (Suc 0) = - 1"
    "spec_Jrr overlap_problem 0 (Suc 0) = 1 / 2"
    "CR overlap_problem ! 0 = 1" "CR overlap_problem ! Suc 0 = 3"
    by (simp_all add: spec_hr_exco_def spec_Jrr_def overlap_problem_def lessThan_Suc
        eval_nat_numeral)
  show ?thesis
    using translator_gate_sequence [OF overlap_problem_wf, of 2 "[]"] overlap_problem_wf
    by (simp add: spec_hamiltonian_gates_def spec_exco_gates_def gate_sequence_def r two h)
qed

text \<open>
  C4. For fixed \<open>FR\<close>, \<open>CR\<close>, \<open>mu\<close>, angle and qubit \<open>r\<close>, each of \<open>apply_hamiltonian\<close>,
  \<open>apply_cost\<close> and \<open>apply_exco\<close> puts exactly one local-field rotation on \<open>r\<close>, and the
  angle of the first is the sum of the angles of the other two.
\<close>

theorem combined_local_field:
  assumes "well_formed s" and "r < R s"
  shows "\<exists>qh qc qe ah ac ae.
      apply_hamiltonian s gamma [] = Inr qh
    \<and> apply_cost s gamma [] = Inr qc
    \<and> apply_exco s gamma [] = Inr qe
    \<and> rotations_on r qh = [ah] \<and> rotations_on r qc = [ac] \<and> rotations_on r qe = [ae]
    \<and> ah = ac + ae"
proof -
  let ?ah = "gamma * (0.5 * CR s ! r + spec_hr_exco s r)"
  let ?ac = "gamma * (0.5 * CR s ! r)"
  let ?ae = "gamma * spec_hr_exco s r"
  have "apply_hamiltonian s gamma [] = Inr (spec_hamiltonian_gates s gamma)"
    using apply_hamiltonian_closed [OF assms(1), of gamma "[]"] by simp
  moreover have "apply_cost s gamma [] = Inr (map (\<lambda>r. Rz (gamma * (0.5 * CR s ! r)) r) [0..<R s])"
    using apply_cost_closed [OF assms(1), of gamma "[]"] by simp
  moreover have "apply_exco s gamma [] = Inr (spec_exco_gates s gamma)"
    using apply_exco_closed [OF assms(1), of gamma "[]"] by simp
  moreover have "rotations_on r (spec_hamiltonian_gates s gamma) = [?ah]"
    unfolding spec_hamiltonian_gates_def using assms(2) by (rule rotations_on_gate_sequence)
  moreover have "rotations_on r (map (\<lambda>r. Rz (gamma * (0.5 * CR s ! r)) r) [0..<R s]) = [?ac]"
    using assms(2) by (rule rotations_on_rotations)
  moreover have "rotations_on r (spec_exco_gates s gamma) = [?ae]"
    unfolding spec_exco_gates_def using assms(2) by (rule rotations_on_gate_sequence)
  moreover have "?ah = ?ac + ?ae"
    by (simp add: algebra_simps)
  ultimately show ?thesis by blast
qed

theorem combined_local_field_witness:
  "well_formed overlap_problem \<and> 1 < R overlap_problem
   \<and> (\<exists>qh qc qe ah ac ae.
        apply_hamiltonian overlap_problem 2 [] = Inr qh
      \<and> apply_cost overlap_problem 2 [] = Inr qc
      \<and> apply_exco overlap_problem 2 [] = Inr qe
      \<and> rotations_on 1 qh = [ah] \<and> rotations_on 1 qc = [ac] \<and> rotations_on 1 qe = [ae]
      \<and> ah = ac + ae)"
proof -
  have h: "1 < R overlap_problem"
    by (simp add: overlap_problem_def)
  show ?thesis
    using combined_local_field [OF overlap_problem_wf h, of 2] overlap_problem_wf h by simp
qed

section \<open>Proofs: execution mode and circuit builder\<close>

lemma split_underscore_not_empty: "split_underscore s \<noteq> []"
  by (induction s) (auto split: list.splits)

lemma split_underscore_plain:
  "CHR ''_'' \<notin> set p \<Longrightarrow> split_underscore p = [p]"
  by (induction p) auto

lemma split_underscore_first:
  "CHR ''_'' \<notin> set p \<Longrightarrow> split_underscore (p @ CHR ''_'' # t) = p # split_underscore t"
  by (induction p) auto

lemma piece_without_underscore:
  "w \<in> set (split_underscore s) \<Longrightarrow> CHR ''_'' \<notin> set w"
proof (induction s arbitrary: w)
  case Nil
  then show ?case by simp
next
  case (Cons c cs)
  obtain p ps where sp: "split_underscore cs = p # ps"
    using split_underscore_not_empty [of cs] by (cases "split_underscore cs") auto
  have "CHR ''_'' \<notin> set p" and "\<And>v. v \<in> set ps \<Longrightarrow> CHR ''_'' \<notin> set v"
    using Cons.IH sp by simp_all
  then show ?case
    using Cons.prems sp by (auto split: if_splits)
qed

lemma piece_is_delimited:
  "w \<in> set (split_underscore s) \<Longrightarrow>
     \<exists>pre post. s = pre @ w @ post
       \<and> (pre = [] \<or> last pre = CHR ''_'') \<and> (post = [] \<or> hd post = CHR ''_'')"
proof (induction s arbitrary: w rule: length_induct)
  case (1 s)
  show ?case
  proof (cases "CHR ''_'' \<in> set s")
    case False
    then have "w = s"
      using "1.prems" by (simp add: split_underscore_plain)
    then have "s = [] @ w @ []" by simp
    then show ?thesis by blast
  next
    case True
    then obtain p t where s: "s = p @ CHR ''_'' # t" and p: "CHR ''_'' \<notin> set p"
      by (auto dest: split_list_first)
    have "w = p \<or> w \<in> set (split_underscore t)"
      using "1.prems" by (simp add: s split_underscore_first [OF p])
    then show ?thesis
    proof
      assume "w = p"
      then have "s = [] @ w @ (CHR ''_'' # t)" by (simp add: s)
      then show ?thesis by (metis list.sel(1))
    next
      assume w: "w \<in> set (split_underscore t)"
      have "length t < length s" by (simp add: s)
      with "1.IH" w obtain pre post where t: "t = pre @ w @ post"
        and pre: "pre = [] \<or> last pre = CHR ''_''"
        and post: "post = [] \<or> hd post = CHR ''_''"
        by blast
      have "s = (p @ CHR ''_'' # pre) @ w @ post"
        by (simp add: s t)
      moreover have "last (p @ CHR ''_'' # pre) = CHR ''_''"
        using pre by auto
      ultimately show ?thesis
        using post by blast
    qed
  qed
qed

lemma delimited_is_piece:
  assumes "CHR ''_'' \<notin> set w"
    and "pre = [] \<or> last pre = CHR ''_''" and "post = [] \<or> hd post = CHR ''_''"
  shows "w \<in> set (split_underscore (pre @ w @ post))"
  using assms(2)
proof (induction pre rule: length_induct)
  case (1 pre)
  show ?case
  proof (cases "pre = []")
    case True
    show ?thesis
    proof (cases post)
      case Nil
      with True show ?thesis by (simp add: split_underscore_plain [OF assms(1)])
    next
      case (Cons c t)
      with assms(3) have "post = CHR ''_'' # t" by simp
      with True show ?thesis by (simp add: split_underscore_first [OF assms(1)])
    qed
  next
    case False
    with "1.prems" have "CHR ''_'' \<in> set pre"
      by (metis last_in_set)
    then obtain p q where pre: "pre = p @ CHR ''_'' # q" and p: "CHR ''_'' \<notin> set p"
      by (auto dest: split_list_first)
    have q: "q = [] \<or> last q = CHR ''_''"
      using "1.prems" False by (auto simp: pre split: if_splits)
    have "length q < length pre" by (simp add: pre)
    with "1.IH" q have "w \<in> set (split_underscore (q @ w @ post))" by blast
    moreover have "split_underscore (pre @ w @ post) = p # split_underscore (q @ w @ post)"
      using split_underscore_first [OF p, of "q @ w @ post"] by (simp add: pre)
    ultimately show ?thesis by simp
  qed
qed

lemma exact_mode_delimited:
  "exact_mode s \<longleftrightarrow>
     (\<exists>pre post. backend_name s = pre @ ''statevector'' @ post
        \<and> (pre = [] \<or> last pre = CHR ''_'') \<and> (post = [] \<or> hd post = CHR ''_''))"
proof
  assume "exact_mode s"
  then show "\<exists>pre post. backend_name s = pre @ ''statevector'' @ post
        \<and> (pre = [] \<or> last pre = CHR ''_'') \<and> (post = [] \<or> hd post = CHR ''_'')"
    unfolding exact_mode_def by (rule piece_is_delimited)
next
  assume "\<exists>pre post. backend_name s = pre @ ''statevector'' @ post
        \<and> (pre = [] \<or> last pre = CHR ''_'') \<and> (post = [] \<or> hd post = CHR ''_'')"
  then obtain pre post where n: "backend_name s = pre @ ''statevector'' @ post"
    and pre: "pre = [] \<or> last pre = CHR ''_''" and post: "post = [] \<or> hd post = CHR ''_''"
    by blast
  have "CHR ''_'' \<notin> set ''statevector''" by simp
  then have "''statevector'' \<in> set (split_underscore (pre @ ''statevector'' @ post))"
    using pre post by (rule delimited_is_piece)
  then show "exact_mode s"
    by (simp only: exact_mode_def n)
qed

subsection \<open>The layers\<close>

lemma length_every_second: "length (every_second xs) = (length xs + 1) div 2"
  by (induction xs rule: every_second.induct) simp_all

lemma no_measure_gate_sequence: "Measure \<notin> set (gate_sequence h J n)"
  by (auto simp: gate_sequence_def)

lemma layer_loop_no_measure:
  assumes "well_formed s" and "usebarrier s = Some ub"
    and "\<forall>d\<in>set ds. d < length gammas \<and> d < length betas"
    and "Measure \<notin> set qc"
  shows "\<exists>qc'. layer_loop s gammas betas ds qc = Inr qc' \<and> Measure \<notin> set qc'"
  using assms(3,4)
proof (induction ds arbitrary: qc)
  case Nil
  then show ?case by simp
next
  case (Cons d ds)
  let ?qc3 = "(if ub then (mix_states (betas ! d)
      (if ub then (qc @ spec_hamiltonian_gates s (gammas ! d)) @ [Barrier]
       else qc @ spec_hamiltonian_gates s (gammas ! d))) @ [Barrier]
     else mix_states (betas ! d)
      (if ub then (qc @ spec_hamiltonian_gates s (gammas ! d)) @ [Barrier]
       else qc @ spec_hamiltonian_gates s (gammas ! d)))"
  have d: "d < length gammas" "d < length betas"
    using Cons.prems(1) by simp_all
  have step: "layer_loop s gammas betas (d # ds) qc = layer_loop s gammas betas ds ?qc3"
    using d by (simp add: item_def bind_def apply_hamiltonian_closed [OF assms(1)]
        barrier_if_configured_def assms(2))
  have "Measure \<notin> set ?qc3"
    using Cons.prems(2)
    by (simp add: mix_states_def spec_hamiltonian_gates_def no_measure_gate_sequence)
  moreover have "\<forall>d\<in>set ds. d < length gammas \<and> d < length betas"
    using Cons.prems(1) by simp
  ultimately have "\<exists>qc'. layer_loop s gammas betas ds ?qc3 = Inr qc' \<and> Measure \<notin> set qc'"
    by (rule Cons.IH [rotated])
  then show ?case
    by (simp only: step)
qed

lemma createCircuit_measure:
  assumes "well_formed s" and "usebarrier s = Some ub"
    and "2 * depth s \<le> length params"
    and "Measure \<notin> set (initial_state (R s))"
  shows "\<exists>body. Measure \<notin> set body
     \<and> createCircuit initial_state s params = Inr (if exact_mode s then body else body @ [Measure])"
proof -
  have "\<forall>d\<in>set [0..<depth s]. d < length (every_second params)
      \<and> d < length (every_second (drop 1 params))"
    using assms(3) by (auto simp: length_every_second)
  from layer_loop_no_measure [OF assms(1,2) this assms(4)]
  obtain body where "layer_loop s (every_second params) (every_second (drop 1 params))
      [0..<depth s] (initial_state (R s)) = Inr body" and "Measure \<notin> set body"
    by blast
  then show ?thesis
    by (auto simp: createCircuit_def bind_def)
qed

lemma starts_with_iff: "starts_with sub name \<longleftrightarrow> (\<exists>post. name = sub @ post)"
  by (induction sub name rule: starts_with.induct) auto

lemma contains_substring_iff:
  "contains_substring sub name \<longleftrightarrow> (\<exists>pre post. name = pre @ sub @ post)"
proof (induction name)
  case Nil
  show ?case by auto
next
  case (Cons d name)
  have "(\<exists>pre post. d # name = pre @ sub @ post)
      \<longleftrightarrow> (\<exists>post. d # name = sub @ post) \<or> (\<exists>pre post. name = pre @ sub @ post)"
  proof
    assume "\<exists>pre post. d # name = pre @ sub @ post"
    then obtain pre post where e: "d # name = pre @ sub @ post" by blast
    show "(\<exists>post. d # name = sub @ post) \<or> (\<exists>pre post. name = pre @ sub @ post)"
    proof (cases pre)
      case Nil
      with e show ?thesis by auto
    next
      case (Cons c pre')
      with e have "name = pre' @ sub @ post" by simp
      then show ?thesis by blast
    qed
  next
    assume "(\<exists>post. d # name = sub @ post) \<or> (\<exists>pre post. name = pre @ sub @ post)"
    then show "\<exists>pre post. d # name = pre @ sub @ post"
    proof
      assume "\<exists>post. d # name = sub @ post"
      then obtain post where "d # name = [] @ sub @ post" by auto
      then show ?thesis by blast
    next
      assume "\<exists>pre post. name = pre @ sub @ post"
      then obtain pre post where "d # name = (d # pre) @ sub @ post" by auto
      then show ?thesis by blast
    qed
  qed
  then show ?case
    by (simp add: Cons.IH starts_with_iff)
qed

lemma identity_problem_exact_wf: "well_formed identity_problem_exact"
  by (simp add: identity_problem_exact_def identity_problem_def well_formed_def)

lemma statistics_width:
  assumes "well_formed s" and "FR s \<noteq> []"
  shows "measurementStatistics s j =
    (if exact_mode s then statistics_exact s j else statistics_sampled s (R s) j)"
proof -
  obtain row rows where fr: "FR s = row # rows"
    using assms(2) by (cases "FR s") auto
  then have "length row = R s"
    using assms(1) by (simp add: well_formed_def)
  then show ?thesis
    by (simp add: measurementStatistics_def fr)
qed

text \<open>
  C7, as the code has it. Exact mode is selected if and only if \<open>statevector\<close> is one of
  the pieces of the backend name between underscores: the name holds the word with the
  start of the name or an underscore before it and the end of the name or an underscore
  after it. In that mode \<open>createCircuit\<close> appends no final measurement and the statistics
  extractors take the statevector branch; for every other name the circuit ends with the
  one measurement and the extractors take the counts branch.
\<close>

theorem mode_selection:
  assumes "well_formed s" and "FR s \<noteq> []" and "usebarrier s = Some ub"
    and "2 * depth s \<le> length params"
    and "Measure \<notin> set (initial_state (R s))"
  shows "(exact_mode s \<longleftrightarrow>
           (\<exists>pre post. backend_name s = pre @ ''statevector'' @ post
              \<and> (pre = [] \<or> last pre = CHR ''_'') \<and> (post = [] \<or> hd post = CHR ''_'')))
       \<and> (\<exists>body. Measure \<notin> set body
            \<and> createCircuit initial_state s params =
                Inr (if exact_mode s then body else body @ [Measure]))
       \<and> successProbability g s j =
           (if exact_mode s then success_exact s j else success_sampled g j)
       \<and> measurementStatistics s j =
           (if exact_mode s then statistics_exact s j else statistics_sampled s (R s) j)"
proof -
  note exact_mode_delimited [of s]
  moreover have "\<exists>body. Measure \<notin> set body
      \<and> createCircuit initial_state s params =
          Inr (if exact_mode s then body else body @ [Measure])"
    using assms(1,3,4,5) by (rule createCircuit_measure)
  moreover have "successProbability g s j =
      (if exact_mode s then success_exact s j else success_sampled g j)"
    by (simp add: successProbability_def)
  moreover note statistics_width [OF assms(1,2), of j]
  ultimately show ?thesis by blast
qed

theorem mode_selection_witness:
  "well_formed identity_problem_exact \<and> FR identity_problem_exact \<noteq> []
   \<and> usebarrier identity_problem_exact = Some False
   \<and> 2 * depth identity_problem_exact \<le> length [2, 3 :: real]
   \<and> Measure \<notin> set (hadamard_layer (R identity_problem_exact))
   \<and> exact_mode identity_problem_exact
   \<and> (\<exists>body. Measure \<notin> set body
        \<and> createCircuit hadamard_layer identity_problem_exact [2, 3] = Inr body)
   \<and> successProbability file_globals identity_problem_exact uniform_job
       = success_exact identity_problem_exact uniform_job"
proof -
  have h: "FR identity_problem_exact \<noteq> []" "usebarrier identity_problem_exact = Some False"
    "2 * depth identity_problem_exact \<le> length [2, 3 :: real]"
    "Measure \<notin> set (hadamard_layer (R identity_problem_exact))"
    by (auto simp: identity_problem_exact_def identity_problem_def hadamard_layer_def)
  have e: "exact_mode identity_problem_exact"
    by (simp add: exact_mode_def identity_problem_exact_def identity_problem_def)
  show ?thesis
    using mode_selection [where s = identity_problem_exact and ub = False
        and params = "[2, 3]" and initial_state = hadamard_layer
        and g = file_globals and j = uniform_job,
        OF identity_problem_exact_wf h]
      identity_problem_exact_wf h e
    by simp
qed

text \<open>
  A backend name that contains the word \<open>statevector\<close> without having it as a piece
  between underscores is run in sampled mode, and its circuit ends with the measurement.
\<close>

theorem substring_is_not_exact_mode:
  "contains_substring ''statevector'' (backend_name lookalike_backend)
   \<and> \<not> exact_mode lookalike_backend
   \<and> createCircuit hadamard_layer lookalike_backend [2, 3] =
       Inr [H 0, H 1, Rz 0 0, Cx 0 1, Rz 0 1, Cx 0 1, Rz 0 1, Rx (- 6), Measure]"
proof -
  have two: "[0..<2] = [0, 1]" "[Suc 0..<2] = [1]" "[2..<2] = []" "[0..<Suc 0] = [0]"
    by (simp_all add: upt_rec)
  have n: "\<not> exact_mode lookalike_backend"
    by (simp add: exact_mode_def lookalike_backend_def)
  have c: "contains_substring ''statevector'' (backend_name lookalike_backend)"
    by (simp add: lookalike_backend_def)
  have "createCircuit hadamard_layer lookalike_backend [2, 3] =
       Inr [H 0, H 1, Rz 0 0, Cx 0 1, Rz 0 1, Cx 0 1, Rz 0 1, Rx (- 6), Measure]"
    unfolding createCircuit_def
    by (simp add: n)
      (simp add: lookalike_backend_def identity_problem_def hadamard_layer_def two
        item_def bind_def apply_hamiltonian_def CR_at_def rz_def cx_def q_register_def
        hr_exco_def Jrr_def column_def rowsum_def dot_def barrier_if_configured_def
        mix_states_def)
  with n c show ?thesis by simp
qed

section \<open>Proofs: success probability\<close>

lemma map_err_all:
  "\<forall>x\<in>set xs. f x = Inr (g x) \<Longrightarrow> map_err f xs = Inr (map g xs)"
  by (induction xs) (simp_all add: bind_def)

lemma probabilities_nonneg: "\<forall>p\<in>set (probabilities sv). 0 \<le> p"
  by (simp add: probabilities_def)

lemma dot_indicator:
  "length bs = length ps \<Longrightarrow>
     dot (map (\<lambda>b. if P b then 1 else 0) bs) ps
       = sum_list (map snd (filter (\<lambda>bp. P (fst bp)) (zip bs ps)))"
  by (induction bs ps rule: list_induct2) (simp_all add: dot_def)

lemma selected_sum_bounds:
  assumes "\<forall>p\<in>set ps. (0::real) \<le> p"
  shows "0 \<le> sum_list (map snd (filter Q (zip bs ps)))"
    and "sum_list (map snd (filter Q (zip bs ps))) \<le> sum_list ps"
proof -
  show "0 \<le> sum_list (map snd (filter Q (zip bs ps)))"
  proof (rule sum_list_nonneg)
    fix x assume "x \<in> set (map snd (filter Q (zip bs ps)))"
    then obtain b where "(b, x) \<in> set (zip bs ps)" by auto
    then have "x \<in> set ps" by (rule set_zip_rightD)
    with assms show "0 \<le> x" by simp
  qed
  show "sum_list (map snd (filter Q (zip bs ps))) \<le> sum_list ps"
    using assms
  proof (induction bs arbitrary: ps)
    case Nil
    then show ?case by (simp add: sum_list_nonneg)
  next
    case (Cons b bs)
    show ?case
    proof (cases ps)
      case Nil
      then show ?thesis by simp
    next
      case (Cons p ps')
      have "sum_list (map snd (filter Q (zip bs ps'))) \<le> sum_list ps'"
        using Cons.IH [of ps'] Cons.prems Cons by simp
      moreover have "0 \<le> p"
        using Cons.prems Cons by simp
      ultimately show ?thesis
        using Cons by simp
    qed
  qed
qed

lemma success_exact_closed:
  assumes "well_formed s" and "statevector j = Some sv"
    and "length sv = length (state_strings s)" and "state_strings s \<noteq> []"
    and "\<forall>b\<in>set (state_strings s). length b = R s \<and> bitstring b"
  shows "success_exact s j =
    Inr (dot (map (\<lambda>b. if spec_is_solution s b then 1 else 0) (state_strings s))
             (probabilities sv))"
proof -
  have "\<forall>b\<in>set (state_strings s). is_solution s b = Inr (spec_is_solution s b)"
    using assms(5) is_solution_closed [OF assms(1)] by blast
  then have "vectorize (is_solution s) (state_strings s)
      = Inr (map (spec_is_solution s) (state_strings s))"
    using assms(4) by (simp add: vectorize_def map_err_all)
  then show ?thesis
    using assms(2,3)
    by (simp add: success_exact_def get_statevector_def bind_def vecdot_def
        probabilities_def comp_def)
qed

text \<open>
  C5. In exact mode, for a normalised statevector over the enumeration
  \<open>state_strings\<close> of bitstrings of length \<open>R\<close>, \<open>successProbability\<close> returns the product
  of the indicator vector of \<open>is_solution\<close> with the probability vector; this is the sum of
  the probabilities of the solution states, and it lies between 0 and 1.
\<close>

theorem exact_success_probability:
  assumes "well_formed s" and "exact_mode s" and "statevector j = Some sv"
    and "length sv = length (state_strings s)" and "state_strings s \<noteq> []"
    and "\<forall>b\<in>set (state_strings s). length b = R s \<and> bitstring b"
    and "sum_list (probabilities sv) = 1"
  shows "\<exists>p. successProbability g s j = Inr p
     \<and> p = dot (map (\<lambda>b. if is_solution s b = Inr True then 1 else 0) (state_strings s))
              (probabilities sv)
     \<and> p = sum_list (map snd (filter (\<lambda>bp. is_solution s (fst bp) = Inr True)
                                (zip (state_strings s) (probabilities sv))))
     \<and> 0 \<le> p \<and> p \<le> 1"
proof -
  let ?ind = "map (\<lambda>b. if is_solution s b = Inr True then (1::real) else 0) (state_strings s)"
  let ?sel = "filter (\<lambda>bp. is_solution s (fst bp) = Inr True)
                (zip (state_strings s) (probabilities sv))"
  have same: "\<forall>b\<in>set (state_strings s). is_solution s b = Inr True \<longleftrightarrow> spec_is_solution s b"
    using assms(6) is_solution_closed [OF assms(1)] by auto
  have ind: "map (\<lambda>b. if spec_is_solution s b then 1 else 0) (state_strings s) = ?ind"
    using same by simp
  have "successProbability g s j = success_exact s j"
    using assms(2) by (simp add: successProbability_def)
  then have val: "successProbability g s j = Inr (dot ?ind (probabilities sv))"
    using success_exact_closed [OF assms(1,3,4,5,6)] by (simp only: ind)
  have len: "length (state_strings s) = length (probabilities sv)"
    using assms(4) by (simp add: probabilities_def)
  have sum: "dot ?ind (probabilities sv) = sum_list (map snd ?sel)"
    using len by (rule dot_indicator)
  have "0 \<le> sum_list (map snd ?sel)" and "sum_list (map snd ?sel) \<le> 1"
    using selected_sum_bounds [OF probabilities_nonneg, of _ "state_strings s" sv] assms(7)
    by simp_all
  with val sum show ?thesis by simp
qed

lemma uniform_probabilities:
  "probabilities [1 / 2, 1 / 2, 1 / 2, 1 / 2] = [1 / 4, 1 / 4, 1 / 4, 1 / 4]"
  by (simp add: probabilities_def norm_divide power_divide)

theorem exact_success_probability_witness:
  "well_formed identity_problem_exact \<and> exact_mode identity_problem_exact
   \<and> statevector uniform_job = Some [1 / 2, 1 / 2, 1 / 2, 1 / 2]
   \<and> length [1 / 2, 1 / 2, 1 / 2, 1 / 2 :: complex] = length (state_strings identity_problem_exact)
   \<and> state_strings identity_problem_exact = [''00'', ''01'', ''10'', ''11'']
   \<and> R identity_problem_exact = 2
   \<and> sum_list (probabilities [1 / 2, 1 / 2, 1 / 2, 1 / 2]) = 1
   \<and> successProbability file_globals identity_problem_exact uniform_job
       = Inr (1 / 4)"
proof -
  have e: "exact_mode identity_problem_exact"
    by (simp add: exact_mode_def identity_problem_exact_def identity_problem_def)
  have h: "statevector uniform_job = Some [1 / 2, 1 / 2, 1 / 2, 1 / 2]"
    "length [1 / 2, 1 / 2, 1 / 2, 1 / 2 :: complex] = length (state_strings identity_problem_exact)"
    "state_strings identity_problem_exact \<noteq> []"
    "\<forall>b\<in>set (state_strings identity_problem_exact).
         length b = R identity_problem_exact \<and> bitstring b"
    "sum_list (probabilities [1 / 2, 1 / 2, 1 / 2, 1 / 2]) = 1"
    by (simp_all add: uniform_job_def identity_problem_exact_def identity_problem_def
        bitstring_def uniform_probabilities)
  have sol: "is_solution identity_problem_exact ''00'' = Inr False"
    "is_solution identity_problem_exact ''01'' = Inr False"
    "is_solution identity_problem_exact ''10'' = Inr False"
    "is_solution identity_problem_exact ''11'' = Inr True"
    by (simp_all add: identity_problem_exact_def identity_problem_def is_solution_def
        reversed_array_def bind_def int_of_char_def broadcast_mul_def)
  have strs: "state_strings identity_problem_exact = [''00'', ''01'', ''10'', ''11'']"
    and r: "R identity_problem_exact = 2"
    by (simp_all add: identity_problem_exact_def identity_problem_def)
  show ?thesis
    using exact_success_probability [OF identity_problem_exact_wf e h,
        of file_globals]
      identity_problem_exact_wf e h(1,2,5) r
    by (auto simp: strs sol uniform_probabilities dot_def)
qed

section \<open>Proofs: the sampled statistics\<close>

lemma format_b_bitstring: "bitstring (format_b n)"
proof (induction n rule: format_b.induct)
  case (1 n)
  show ?case
  proof (cases "n < 2")
    case True
    then show ?thesis
      by (subst format_b.simps) (simp add: bitstring_def)
  next
    case False
    with 1 have "bitstring (format_b (n div 2))" by simp
    with False show ?thesis
      by (subst format_b.simps) (simp add: bitstring_def)
  qed
qed

lemma format_b_length: "n < 2 ^ w \<Longrightarrow> 0 < w \<Longrightarrow> length (format_b n) \<le> w"
proof (induction n arbitrary: w rule: format_b.induct)
  case (1 n)
  show ?case
  proof (cases "n < 2")
    case True
    with "1.prems" show ?thesis
      by (subst format_b.simps) simp
  next
    case False
    obtain v where w: "w = Suc v"
      using "1.prems"(2) by (cases w) auto
    have "n div 2 < 2 ^ v"
      using "1.prems"(1) by (simp add: w less_mult_imp_div_less mult.commute)
    moreover have "0 < v"
    proof (rule ccontr)
      assume "\<not> 0 < v"
      then have "w = 1" by (simp add: w)
      with "1.prems"(1) False show False by simp
    qed
    ultimately have "length (format_b (n div 2)) \<le> v"
      using "1.IH" False by simp
    with False show ?thesis
      by (subst format_b.simps) (simp add: w)
  qed
qed

lemma binstring_of_wf:
  assumes "key < 2 ^ w" and "0 < w"
  shows "length (binstring_of w key) = w" and "bitstring (binstring_of w key)"
proof -
  show "length (binstring_of w key) = w"
    using format_b_length [OF assms] by (simp add: binstring_of_def zfill_def)
  show "bitstring (binstring_of w key)"
  proof -
    have "list_all (\<lambda>c. c = CHR ''0'' \<or> c = CHR ''1'')
        (replicate (w - length (format_b key)) CHR ''0'')"
      by (simp add: list_all_length)
    then show ?thesis
      using format_b_bitstring [of key]
      by (simp add: binstring_of_def zfill_def bitstring_def)
  qed
qed

subsection \<open>Success probability from counts\<close>

text \<open>What the sampled branch computes when the three module-level names are bound.\<close>

lemma success_counts_loop_closed:
  assumes "0 < n"
    and "rN g = Some w" and "is_Solution g = Some test" and "global_FR g = Some m"
    and "\<forall>(key, count)\<in>set cs. test (binstring_of w key) m = Inr (P key)"
  shows "success_counts_loop g n cs acc =
    Inr (acc + real (\<Sum>(key, count)\<leftarrow>cs. if P key then count else 0) / real n)"
  using assms(5)
proof (induction cs arbitrary: acc)
  case Nil
  show ?case by simp
next
  case (Cons kc cs)
  obtain key count where kc: "kc = (key, count)" by (cases kc)
  have this_key: "test (binstring_of w key) m = Inr (P key)"
    and rest: "\<forall>(key, count)\<in>set cs. test (binstring_of w key) m = Inr (P key)"
    using Cons.prems by (simp_all add: kc)
  show ?case
    using assms(1)
    by (simp add: kc lookup_name_def assms(2,3,4) this_key bind_def Cons.IH [OF rest]
        add_divide_distrib)
qed

lemma success_results_loop_closed:
  assumes "rN g = Some w" and "is_Solution g = Some test" and "global_FR g = Some m"
    and "\<forall>result\<in>set rs. 0 < shots result \<and>
      (\<forall>(key, count)\<in>set (counts result). test (binstring_of w key) m = Inr (P key))"
  shows "success_results_loop g rs acc =
    Inr (acc + (\<Sum>result\<leftarrow>rs.
           real (\<Sum>(key, count)\<leftarrow>counts result. if P key then count else 0)
             / real (shots result)))"
  using assms(4)
proof (induction rs arbitrary: acc)
  case Nil
  show ?case by simp
next
  case (Cons result rs)
  have pos: "0 < shots result"
    and keys: "\<forall>(key, count)\<in>set (counts result).
      test (binstring_of w key) m = Inr (P key)"
    using Cons.prems by simp_all
  have "success_counts_loop g (shots result) (counts result) acc =
    Inr (acc + real (\<Sum>(key, count)\<leftarrow>counts result. if P key then count else 0)
           / real (shots result))"
    using pos assms(1,2,3) keys by (rule success_counts_loop_closed)
  moreover have "\<forall>result\<in>set rs. 0 < shots result \<and>
      (\<forall>(key, count)\<in>set (counts result). test (binstring_of w key) m = Inr (P key))"
    using Cons.prems by simp
  ultimately show ?case
    by (simp add: bind_def Cons.IH add.assoc)
qed

lemma success_sampled_bound:
  assumes "well_formed s" and "0 < R s"
    and "rN g = Some (R s)" and "is_Solution g = Some test" and "global_FR g = Some m"
    and "\<forall>b. test b m = is_solution s b"
    and "\<forall>result\<in>set (results j). 0 < shots result \<and>
           (\<forall>(key, count)\<in>set (counts result). key < 2 ^ R s)"
  shows "success_sampled g j =
    Inr (\<Sum>result\<leftarrow>results j. real (solution_shots s result) / real (shots result))"
proof -
  have "\<forall>result\<in>set (results j). 0 < shots result \<and>
      (\<forall>(key, count)\<in>set (counts result).
          test (binstring_of (R s) key) m = Inr (spec_is_solution s (binstring_of (R s) key)))"
  proof (intro ballI conjI)
    fix result assume r: "result \<in> set (results j)"
    with assms(7) show "0 < shots result" by blast
    fix kc assume kc: "kc \<in> set (counts result)"
    obtain key count where e: "kc = (key, count)" by (cases kc)
    have "key < 2 ^ R s"
      using assms(7) r kc e by blast
    then have "is_solution s (binstring_of (R s) key)
        = Inr (spec_is_solution s (binstring_of (R s) key))"
      using binstring_of_wf [OF _ assms(2)] is_solution_closed [OF assms(1)] by blast
    then show "case kc of (key, count) \<Rightarrow>
        test (binstring_of (R s) key) m = Inr (spec_is_solution s (binstring_of (R s) key))"
      by (simp add: e assms(6))
  qed
  with assms(3,4,5) have "success_results_loop g (results j) 0 =
    Inr (0 + (\<Sum>result\<leftarrow>results j.
           real (\<Sum>(key, count)\<leftarrow>counts result.
                   if spec_is_solution s (binstring_of (R s) key) then count else 0)
             / real (shots result)))"
    by (rule success_results_loop_closed
        [where P = "\<lambda>key. spec_is_solution s (binstring_of (R s) key)"])
  then show ?thesis
    unfolding success_sampled_def solution_shots_def by simp
qed

lemma binstring_examples:
  "binstring_of 3 1 = ''001''" "binstring_of 3 (Suc 0) = ''001''" "binstring_of 3 6 = ''110''"
proof -
  have "format_b 1 = ''1''"
    by (subst format_b.simps) simp
  then show "binstring_of 3 1 = ''001''" and "binstring_of 3 (Suc 0) = ''001''"
    by (simp_all add: binstring_of_def zfill_def eval_nat_numeral)
  have "format_b 3 = ''11''"
    by (subst format_b.simps, subst format_b.simps) simp
  then have "format_b 6 = ''110''"
    by (subst format_b.simps) simp
  then show "binstring_of 3 6 = ''110''"
    by (simp add: binstring_of_def zfill_def)
qed

lemma single_task_sampled: "\<not> exact_mode single_task"
  by (simp add: exact_mode_def single_task_def)

lemma single_task_solutions:
  "spec_is_solution single_task ''001''" "\<not> spec_is_solution single_task ''110''"
  by (simp_all add: spec_is_solution_def single_task_def xbit_def lessThan_Suc eval_nat_numeral)

text \<open>
  With the three names bound, a test that accepts \<open>001\<close> and two experiment results of
  ten shots that all measure \<open>001\<close>, the value returned is 2: the fractions of the
  results are added. The fraction of all shots that are solutions is 1.
\<close>

lemma repeated_results_sum:
  assumes "rN g = Some 3" and "is_Solution g = Some test" and "global_FR g = Some m"
    and "test ''001'' m = Inr True"
  shows "successProbability g single_task repeated_job = Inr 2"
  by (simp add: successProbability_def single_task_sampled success_sampled_def
      repeated_job_def lookup_name_def assms binstring_examples bind_def)

lemma repeated_results_fraction: "spec_total_fraction single_task repeated_job = 1"
proof -
  have "R single_task = 3"
    by (simp add: single_task_def)
  then show ?thesis
    by (simp add: spec_total_fraction_def repeated_job_def solution_shots_def
        binstring_examples single_task_solutions)
qed

text \<open>
  C6. In sampled mode \<open>successProbability\<close> is to return the fraction of the shots whose
  measured bitstring satisfies \<open>is_solution\<close>, 7/10 for the counts \<open>{001: 7, 110: 3}\<close>
  with ten shots when \<open>001\<close> is a solution and \<open>110\<close> is none. On that input, on a
  sampling backend, the code as the file has it reaches the first count, reads the name
  \<open>rN\<close> that nothing defines, and raises NameError.
\<close>

theorem sampled_success_probability_name_error:
  "\<not> exact_mode single_task
   \<and> is_solution single_task ''001'' = Inr True
   \<and> is_solution single_task ''110'' = Inr False
   \<and> results sampled_job = [\<lparr>shots = 10, counts = [(1, 7), (6, 3)]\<rparr>]
   \<and> successProbability file_globals single_task sampled_job = Inl NameError"
proof -
  have sol: "is_solution single_task ''001'' = Inr True"
    "is_solution single_task ''110'' = Inr False"
    by (simp_all add: single_task_def is_solution_def reversed_array_def bind_def
        int_of_char_def broadcast_mul_def)
  have "successProbability file_globals single_task sampled_job = Inl NameError"
    by (simp add: successProbability_def single_task_sampled success_sampled_def
        sampled_job_def file_globals_def lookup_name_def bind_def)
  with sol single_task_sampled show ?thesis
    by (simp add: sampled_job_def)
qed

section \<open>Proofs: measurement statistics\<close>

lemma py_max_Finite: "py_max (Finite b) c = Finite (max b c)"
  by (simp add: max_def)

lemma foldl_py_max_Finite:
  "foldl py_max (Finite b) cs = Finite (Max (set (b # cs)))"
proof (induction cs arbitrary: b)
  case Nil
  show ?case by simp
next
  case (Cons c cs)
  have "Max (set (max b c # cs)) = Max (set (b # c # cs))"
  proof (cases "cs = []")
    case True
    then show ?thesis by (simp add: max.commute)
  next
    case False
    then have "Max (insert b (insert c (set cs))) = max b (max c (Max (set cs)))"
      by simp
    moreover have "Max (insert (max b c) (set cs)) = max (max b c) (Max (set cs))"
      using False by simp
    ultimately show ?thesis by (simp add: max.assoc)
  qed
  then show ?case
    by (simp only: foldl_Cons py_max_Finite Cons.IH)
qed

lemma foldl_py_max_maximum: "foldl py_max MinusInf cs = maximum cs"
  by (cases cs) (simp_all add: maximum_def foldl_py_max_Finite)

lemma statistics_counts_loop_closed:
  assumes "0 < n"
    and "\<forall>(key, count)\<in>set cs. cost s (binstring_of w key) = Inr (c key)"
  shows "statistics_counts_loop s w n cs (b, E) =
    Inr (foldl py_max b (map (\<lambda>(key, count). c key) cs),
         E + (\<Sum>(key, count)\<leftarrow>cs. c key * real count / real n))"
  using assms(2)
proof (induction cs arbitrary: b E)
  case Nil
  show ?case by simp
next
  case (Cons kc cs)
  obtain key count where kc: "kc = (key, count)" by (cases kc)
  have this_key: "cost s (binstring_of w key) = Inr (c key)"
    and rest: "\<forall>(key, count)\<in>set cs. cost s (binstring_of w key) = Inr (c key)"
    using Cons.prems by (simp_all add: kc)
  show ?case
    using assms(1) by (simp add: kc this_key bind_def Cons.IH [OF rest] add.assoc)
qed

lemma statistics_results_loop_closed:
  assumes "\<forall>result\<in>set rs. 0 < shots result \<and>
      (\<forall>(key, count)\<in>set (counts result). cost s (binstring_of w key) = Inr (c key))"
  shows "statistics_results_loop s w rs b =
    Inr (map (\<lambda>result. \<Sum>(key, count)\<leftarrow>counts result.
                 c key * real count / real (shots result)) rs,
         foldl py_max b
           (concat (map (\<lambda>result. map (\<lambda>(key, count). c key) (counts result)) rs)))"
  using assms
proof (induction rs arbitrary: b)
  case Nil
  show ?case by simp
next
  case (Cons result rs)
  have "0 < shots result"
    and "\<forall>(key, count)\<in>set (counts result). cost s (binstring_of w key) = Inr (c key)"
    using Cons.prems by simp_all
  then have inner: "statistics_counts_loop s w (shots result) (counts result) (b, 0) =
    Inr (foldl py_max b (map (\<lambda>(key, count). c key) (counts result)),
         0 + (\<Sum>(key, count)\<leftarrow>counts result. c key * real count / real (shots result)))"
    by (rule statistics_counts_loop_closed)
  have rest: "\<forall>result\<in>set rs. 0 < shots result \<and>
      (\<forall>(key, count)\<in>set (counts result). cost s (binstring_of w key) = Inr (c key))"
    using Cons.prems by simp
  show ?case
    by (simp add: inner bind_def Cons.IH [OF rest])
qed

lemma statistics_sampled_closed:
  assumes "well_formed s" and "0 < R s"
    and "\<forall>result\<in>set (results j). 0 < shots result \<and>
           (\<forall>(key, count)\<in>set (counts result). key < 2 ^ R s)"
  shows "statistics_sampled s (R s) j =
    Inr (map (spec_expectation s) (results j), None, maximum (measured_costs s j))"
proof -
  have "\<forall>result\<in>set (results j). 0 < shots result \<and>
      (\<forall>(key, count)\<in>set (counts result).
          cost s (binstring_of (R s) key) = Inr (spec_cost s (binstring_of (R s) key)))"
  proof (intro ballI conjI)
    fix result assume r: "result \<in> set (results j)"
    with assms(3) show "0 < shots result" by blast
    fix kc assume kc: "kc \<in> set (counts result)"
    obtain key count where e: "kc = (key, count)" by (cases kc)
    have "key < 2 ^ R s"
      using assms(3) r kc e by blast
    then have "cost s (binstring_of (R s) key) = Inr (spec_cost s (binstring_of (R s) key))"
      using binstring_of_wf [OF _ assms(2)] cost_closed [OF assms(1)] by blast
    then show "case kc of (key, count) \<Rightarrow>
        cost s (binstring_of (R s) key) = Inr (spec_cost s (binstring_of (R s) key))"
      by (simp add: e)
  qed
  then have "statistics_results_loop s (R s) (results j) MinusInf =
    Inr (map (\<lambda>result. \<Sum>(key, count)\<leftarrow>counts result.
                 spec_cost s (binstring_of (R s) key) * real count / real (shots result))
           (results j),
         foldl py_max MinusInf
           (concat (map (\<lambda>result. map (\<lambda>(key, count). spec_cost s (binstring_of (R s) key))
                                      (counts result)) (results j))))"
    by (rule statistics_results_loop_closed
        [where c = "\<lambda>key. spec_cost s (binstring_of (R s) key)"])
  then show ?thesis
    by (simp add: statistics_sampled_def bind_def spec_expectation_def measured_costs_def
        foldl_py_max_maximum)
qed

text \<open>
  C8. In sampled mode, \<open>measurementStatistics\<close> returns one expectation value per
  experiment result, the sum over that result's measured bitstrings of cost times count
  over the result's shots; it returns nothing for the variance; and it returns as best
  cost the greatest cost among all measured bitstrings of all experiment results.
\<close>

theorem sampled_measurement_statistics:
  assumes "well_formed s" and "FR s \<noteq> []" and "\<not> exact_mode s" and "0 < R s"
    and "\<forall>result\<in>set (results j). 0 < shots result \<and>
           (\<forall>(key, count)\<in>set (counts result). key < 2 ^ R s)"
  shows "measurementStatistics s j =
    Inr (map (spec_expectation s) (results j), None, maximum (measured_costs s j))"
  using statistics_width [OF assms(1,2), of j] statistics_sampled_closed [OF assms(1,4,5)]
    assms(3)
  by simp

lemma single_task_costs:
  "spec_cost single_task ''001'' = - 1" "spec_cost single_task ''110'' = - 6"
  by (simp_all add: spec_cost_def single_task_def xbit_def lessThan_Suc eval_nat_numeral)

theorem sampled_measurement_statistics_witness:
  "well_formed single_task \<and> FR single_task \<noteq> [] \<and> \<not> exact_mode single_task
   \<and> 0 < R single_task
   \<and> measurementStatistics single_task sampled_job = Inr ([- 5 / 2], None, Finite (- 1))"
proof -
  have h: "FR single_task \<noteq> []" "\<not> exact_mode single_task" "0 < R single_task"
    "\<forall>result\<in>set (results sampled_job). 0 < shots result \<and>
           (\<forall>(key, count)\<in>set (counts result). key < 2 ^ R single_task)"
    by (simp_all add: single_task_sampled) (simp_all add: single_task_def sampled_job_def)
  have r: "R single_task = 3"
    by (simp add: single_task_def)
  have v: "map (spec_expectation single_task) (results sampled_job) = [- 5 / 2]"
    "maximum (measured_costs single_task sampled_job) = Finite (- 1)"
    by (simp_all add: spec_expectation_def measured_costs_def maximum_def sampled_job_def r
        binstring_examples single_task_costs)
  show ?thesis
    using sampled_measurement_statistics [OF single_task_wf h] single_task_wf h(1,2,3)
    by (simp add: v)
qed

subsection \<open>Results without data\<close>

lemma success_results_loop_empty:
  "\<forall>result\<in>set rs. counts result = [] \<Longrightarrow> success_results_loop g rs acc = Inr acc"
  by (induction rs arbitrary: acc) (simp_all add: bind_def)

lemma statistics_results_loop_empty:
  "\<forall>result\<in>set rs. counts result = [] \<Longrightarrow>
     statistics_results_loop s w rs b = Inr (replicate (length rs) 0, b)"
  by (induction rs arbitrary: b) (simp_all add: bind_def)

text \<open>
  C9, as the code has it. A sampled-mode result whose counts are all empty raises no
  error: \<open>successProbability\<close> returns 0 and \<open>measurementStatistics\<close> returns the
  expectation 0 for each experiment result, no variance and the best cost \<open>-inf\<close>. In
  exact mode a result without a statevector makes both extractors fail, with the error of
  \<open>get_statevector\<close>.
\<close>

theorem extractors_without_data:
  assumes "FR s \<noteq> []"
  shows "(\<not> exact_mode s \<and> (\<forall>result\<in>set (results j). counts result = [])
          \<longrightarrow> successProbability g s j = Inr 0
            \<and> measurementStatistics s j =
                Inr (replicate (length (results j)) 0, None, MinusInf))
       \<and> (exact_mode s \<and> statevector j = None
          \<longrightarrow> successProbability g s j = Inl NoStatevector
            \<and> measurementStatistics s j = Inl NoStatevector)"
proof -
  obtain row rows where fr: "FR s = row # rows"
    using assms by (cases "FR s") auto
  have "successProbability g s j = Inr 0
      \<and> measurementStatistics s j = Inr (replicate (length (results j)) 0, None, MinusInf)"
    if "\<not> exact_mode s" and "\<forall>result\<in>set (results j). counts result = []"
    using that
    by (simp add: successProbability_def success_sampled_def success_results_loop_empty
        measurementStatistics_def fr statistics_sampled_def statistics_results_loop_empty
        bind_def)
  moreover have "successProbability g s j = Inl NoStatevector
      \<and> measurementStatistics s j = Inl NoStatevector"
    if "exact_mode s" and "statevector j = None"
    using that
    by (simp add: successProbability_def success_exact_def measurementStatistics_def fr
        statistics_exact_def get_statevector_def bind_def)
  ultimately show ?thesis by blast
qed

theorem extractors_without_data_witness:
  "FR overlap_problem \<noteq> [] \<and> \<not> exact_mode overlap_problem
   \<and> results empty_job = [\<lparr>shots = 10, counts = []\<rparr>]
   \<and> successProbability file_globals overlap_problem empty_job = Inr 0
   \<and> measurementStatistics overlap_problem empty_job = Inr ([0], None, MinusInf)
   \<and> exact_mode identity_problem_exact \<and> statevector empty_job = None
   \<and> successProbability file_globals identity_problem_exact empty_job
       = Inl NoStatevector
   \<and> measurementStatistics identity_problem_exact empty_job = Inl NoStatevector"
proof -
  have h: "FR overlap_problem \<noteq> []" "FR identity_problem_exact \<noteq> []"
    by (simp_all add: overlap_problem_def identity_problem_exact_def identity_problem_def)
  have m: "\<not> exact_mode overlap_problem" "exact_mode identity_problem_exact"
    by (simp_all add: exact_mode_def overlap_problem_def identity_problem_exact_def
        identity_problem_def)
  have j: "results empty_job = [\<lparr>shots = 10, counts = []\<rparr>]" "statevector empty_job = None"
    by (simp_all add: empty_job_def)
  show ?thesis
    using extractors_without_data [OF h(1), of empty_job file_globals]
      extractors_without_data [OF h(2), of empty_job file_globals]
      h(1) m j
    by simp
qed

text \<open>
  On a sampled result with empty counts both extractors return initial values and raise
  nothing.
\<close>

theorem empty_counts_raise_nothing:
  "\<not> exact_mode identity_problem
   \<and> counts (hd (results empty_job)) = []
   \<and> successProbability file_globals identity_problem empty_job = Inr 0
   \<and> measurementStatistics identity_problem empty_job = Inr ([0], None, MinusInf)"
proof -
  have n: "\<not> exact_mode identity_problem"
    by (simp add: exact_mode_def identity_problem_def)
  have "successProbability file_globals identity_problem empty_job = Inr 0"
    by (simp add: successProbability_def n success_sampled_def empty_job_def bind_def)
  moreover have "FR identity_problem = [[1, 0], [0, 1]]"
    by (simp add: identity_problem_def)
  then have "measurementStatistics identity_problem empty_job = Inr ([0], None, MinusInf)"
    by (simp add: measurementStatistics_def n statistics_sampled_def empty_job_def bind_def)
  ultimately show ?thesis
    using n by (simp add: empty_job_def)
qed

end
